theory Spec2Isabelle
  imports Main "HOL-Library.AList"
begin

section \<open>The block graph of a document-analysis response\<close>

text \<open>
  The program (\<^verbatim>\<open>lambda_function.py\<close>) reads a response of the document-analysis service:
  a dictionary whose entry \<^verbatim>\<open>'Blocks'\<close> is a flat list of block dictionaries. A block is
  modelled as a record. The entries the code reads with a subscript on every block
  (\<^verbatim>\<open>block['Id']\<close>, \<^verbatim>\<open>block['BlockType']\<close>, \<^verbatim>\<open>relationship['Type']\<close>,
  \<^verbatim>\<open>relationship['Ids']\<close>) are plain fields; the entries that only some block types carry
  (\<^verbatim>\<open>'Text'\<close>, \<^verbatim>\<open>'EntityTypes'\<close>, \<^verbatim>\<open>'RowIndex'\<close>, \<^verbatim>\<open>'ColumnIndex'\<close>,
  \<^verbatim>\<open>'Relationships'\<close>) are optional fields, \<open>None\<close> standing for an absent dictionary key.
  A subscript on an absent key raises \<^verbatim>\<open>KeyError\<close>, which is a value of the model.

  A Python \<^verbatim>\<open>str\<close> is a list of characters read as code points below 256; a Python
  \<^verbatim>\<open>dict\<close> is an association list with pairwise distinct keys in insertion order, written
  to with \<open>AList.update\<close> (an existing key keeps its position, a new key goes to the end).
\<close>

datatype py_error = KeyError string

record relationship =
  Type :: string
  Ids :: "string list"

record block =
  Id' :: string
  BlockType :: string
  Text :: "string option"
  EntityTypes :: "string list option"
  RowIndex :: "int option"
  ColumnIndex :: "int option"
  Relationships :: "relationship list option"

record response =
  Blocks :: "block list"

type_synonym ('k, 'v) dict = "('k \<times> 'v) list"

subsection \<open>Built-ins of the language\<close>

text \<open>\<^verbatim>\<open>sep.join(xs)\<close>.\<close>

fun join :: "string \<Rightarrow> string list \<Rightarrow> string" where
  "join sep [] = []"
| "join sep [x] = x"
| "join sep (x # y # ys) = x @ sep @ join sep (y # ys)"

text \<open>\<^verbatim>\<open>c.isspace()\<close> on the code points below 256, and \<^verbatim>\<open>s.strip()\<close>, which removes the
  whitespace at both ends of \<open>s\<close>.\<close>

definition isspace :: "char \<Rightarrow> bool" where
  "isspace c \<longleftrightarrow> c \<in> set [CHR 0x09, CHR 0x0A, CHR 0x0B, CHR 0x0C, CHR 0x0D,
     CHR 0x1C, CHR 0x1D, CHR 0x1E, CHR 0x1F, CHR 0x20, CHR 0x85, CHR 0xA0]"

definition strip :: "string \<Rightarrow> string" where
  "strip s = rev (dropWhile isspace (rev (dropWhile isspace s)))"

text \<open>\<^verbatim>\<open>d.get(k, default)\<close>.\<close>

definition dict_get :: "('k, 'v) dict \<Rightarrow> 'k \<Rightarrow> 'v \<Rightarrow> 'v" where
  "dict_get d k dflt = (case map_of d k of None \<Rightarrow> dflt | Some v \<Rightarrow> v)"

subsection \<open>\<^verbatim>\<open>extract_text\<close>\<close>

text \<open>The loop of \<^verbatim>\<open>extract_text\<close> over \<^verbatim>\<open>response['Blocks']\<close>, with the list
  \<^verbatim>\<open>text_blocks\<close> it appends to.\<close>

fun extract_text_loop :: "block list \<Rightarrow> string list \<Rightarrow> py_error + string list" where
  "extract_text_loop [] text_blocks = Inr text_blocks"
| "extract_text_loop (block # rest) text_blocks =
     (if BlockType block = ''LINE'' then
        (case Text block of
           None \<Rightarrow> Inl (KeyError ''Text'')
         | Some t \<Rightarrow> extract_text_loop rest (text_blocks @ [t]))
      else extract_text_loop rest text_blocks)"

definition extract_text :: "response \<Rightarrow> py_error + string" where
  "extract_text response =
     (case extract_text_loop (Blocks response) [] of
        Inl e \<Rightarrow> Inl e
      | Inr text_blocks \<Rightarrow> Inr (join [CHR 0x0A] text_blocks))"

subsection \<open>\<^verbatim>\<open>get_text\<close> and \<^verbatim>\<open>find_value_block\<close>\<close>

text \<open>\<^verbatim>\<open>get_text\<close>: the loop over the ids of one relationship, the loop over the
  relationships, and the function. The accumulator is the string \<^verbatim>\<open>text\<close>.\<close>

fun get_text_ids :: "string list \<Rightarrow> (string, block) dict \<Rightarrow> string \<Rightarrow> py_error + string" where
  "get_text_ids [] block_map text = Inr text"
| "get_text_ids (child_id # ids) block_map text =
     (case map_of block_map child_id of
        None \<Rightarrow> get_text_ids ids block_map text
      | Some word \<Rightarrow>
          if BlockType word = ''WORD'' then
            (case Text word of
               None \<Rightarrow> Inl (KeyError ''Text'')
             | Some t \<Rightarrow> get_text_ids ids block_map (text @ t @ '' ''))
          else get_text_ids ids block_map text)"

fun get_text_rels ::
  "relationship list \<Rightarrow> (string, block) dict \<Rightarrow> string \<Rightarrow> py_error + string" where
  "get_text_rels [] block_map text = Inr text"
| "get_text_rels (relationship # rest) block_map text =
     (if Type relationship = ''CHILD'' then
        (case get_text_ids (Ids relationship) block_map text of
           Inl e \<Rightarrow> Inl e
         | Inr text' \<Rightarrow> get_text_rels rest block_map text')
      else get_text_rels rest block_map text)"

definition get_text :: "block \<Rightarrow> (string, block) dict \<Rightarrow> py_error + string" where
  "get_text block block_map =
     (case Relationships block of
        None \<Rightarrow> Inr (strip '''')
      | Some rels \<Rightarrow>
          (case get_text_rels rels block_map '''' of
             Inl e \<Rightarrow> Inl e
           | Inr text \<Rightarrow> Inr (strip text)))"

text \<open>\<^verbatim>\<open>find_value_block\<close>: the first id, in the first \<^verbatim>\<open>VALUE\<close> relationship that has
  one, that is a key of \<^verbatim>\<open>value_map\<close>; \<open>None\<close> is Python's \<^verbatim>\<open>None\<close>.\<close>

fun find_value_ids :: "string list \<Rightarrow> (string, block) dict \<Rightarrow> block option" where
  "find_value_ids [] value_map = None"
| "find_value_ids (value_id # ids) value_map =
     (case map_of value_map value_id of
        Some b \<Rightarrow> Some b
      | None \<Rightarrow> find_value_ids ids value_map)"

fun find_value_rels :: "relationship list \<Rightarrow> (string, block) dict \<Rightarrow> block option" where
  "find_value_rels [] value_map = None"
| "find_value_rels (relationship # rest) value_map =
     (if Type relationship = ''VALUE'' then
        (case find_value_ids (Ids relationship) value_map of
           Some b \<Rightarrow> Some b
         | None \<Rightarrow> find_value_rels rest value_map)
      else find_value_rels rest value_map)"

definition find_value_block :: "block \<Rightarrow> (string, block) dict \<Rightarrow> block option" where
  "find_value_block key_block value_map =
     (case Relationships key_block of
        None \<Rightarrow> None
      | Some rels \<Rightarrow> find_value_rels rels value_map)"

subsection \<open>\<^verbatim>\<open>extract_forms\<close>\<close>

text \<open>The first loop fills \<^verbatim>\<open>key_map\<close>, \<^verbatim>\<open>value_map\<close> and \<^verbatim>\<open>block_map\<close>, carried here
  as a triple in this order.\<close>

type_synonym block_maps =
  "(string, block) dict \<times> (string, block) dict \<times> (string, block) dict"

fun index_blocks :: "block list \<Rightarrow> block_maps \<Rightarrow> py_error + block_maps" where
  "index_blocks [] maps = Inr maps"
| "index_blocks (block # rest) (key_map, value_map, block_map) =
     (let block_id = Id' block;
          block_map = AList.update block_id block block_map
      in if BlockType block = ''KEY_VALUE_SET'' then
           (case EntityTypes block of
              None \<Rightarrow> Inl (KeyError ''EntityTypes'')
            | Some roles \<Rightarrow>
                if ''KEY'' \<in> set roles
                then index_blocks rest (AList.update block_id block key_map, value_map, block_map)
                else index_blocks rest (key_map, AList.update block_id block value_map, block_map))
         else index_blocks rest (key_map, value_map, block_map))"

text \<open>The second loop, over \<^verbatim>\<open>key_map.items()\<close>, writes the dictionary \<^verbatim>\<open>forms\<close>. A
  string is true in a condition when it is not empty; a block dictionary is always true,
  since it has the key \<^verbatim>\<open>'Id'\<close>.\<close>

fun forms_loop ::
  "(string, block) dict \<Rightarrow> (string, block) dict \<Rightarrow> (string, block) dict \<Rightarrow>
   (string, string) dict \<Rightarrow> py_error + (string, string) dict" where
  "forms_loop [] value_map block_map forms = Inr forms"
| "forms_loop ((key_block_id, key_block) # rest) value_map block_map forms =
     (let value_block = find_value_block key_block value_map in
      case get_text key_block block_map of
        Inl e \<Rightarrow> Inl e
      | Inr key_text \<Rightarrow>
          (case (case value_block of
                   Some vb \<Rightarrow> get_text vb block_map
                 | None \<Rightarrow> Inr '''') of
             Inl e \<Rightarrow> Inl e
           | Inr value_text \<Rightarrow>
               if key_text \<noteq> '''' \<and> value_text \<noteq> ''''
               then forms_loop rest value_map block_map
                      (AList.update key_text value_text forms)
               else forms_loop rest value_map block_map forms))"

definition extract_forms :: "response \<Rightarrow> py_error + (string, string) dict" where
  "extract_forms response =
     (case index_blocks (Blocks response) ([], [], []) of
        Inl e \<Rightarrow> Inl e
      | Inr (key_map, value_map, block_map) \<Rightarrow> forms_loop key_map value_map block_map [])"

subsection \<open>\<^verbatim>\<open>extract_tables\<close>\<close>

type_synonym grid = "string list list"
type_synonym rows = "(int, (int, string) dict) dict"

text \<open>The text of a cell: \<^verbatim>\<open>next((b for b in response['Blocks'] if b['Id'] == word_id), None)\<close>
  is the first block of the collection with that id.\<close>

fun cell_text_ids :: "block list \<Rightarrow> string list \<Rightarrow> string \<Rightarrow> py_error + string" where
  "cell_text_ids blocks [] cell_text = Inr cell_text"
| "cell_text_ids blocks (word_id # ids) cell_text =
     (case find (\<lambda>b. Id' b = word_id) blocks of
        None \<Rightarrow> cell_text_ids blocks ids cell_text
      | Some word \<Rightarrow>
          if BlockType word = ''WORD'' then
            (case Text word of
               None \<Rightarrow> Inl (KeyError ''Text'')
             | Some t \<Rightarrow> cell_text_ids blocks ids (cell_text @ t @ '' ''))
          else cell_text_ids blocks ids cell_text)"

fun cell_text_rels :: "block list \<Rightarrow> relationship list \<Rightarrow> string \<Rightarrow> py_error + string" where
  "cell_text_rels blocks [] cell_text = Inr cell_text"
| "cell_text_rels blocks (rel # rest) cell_text =
     (if Type rel = ''CHILD'' then
        (case cell_text_ids blocks (Ids rel) cell_text of
           Inl e \<Rightarrow> Inl e
         | Inr cell_text' \<Rightarrow> cell_text_rels blocks rest cell_text')
      else cell_text_rels blocks rest cell_text)"

text \<open>Lines 180 to 189 for one cell: the stripped text that is stored in the grid.\<close>

definition cell_text_of :: "block list \<Rightarrow> block \<Rightarrow> py_error + string" where
  "cell_text_of blocks cell =
     (case Relationships cell of
        None \<Rightarrow> Inr (strip '''')
      | Some rels \<Rightarrow>
          (case cell_text_rels blocks rels '''' of
             Inl e \<Rightarrow> Inl e
           | Inr cell_text \<Rightarrow> Inr (strip cell_text)))"

text \<open>The loop over \<^verbatim>\<open>cells\<close> that fills the dictionary \<^verbatim>\<open>rows\<close>. The subscript
  \<^verbatim>\<open>rows[row_index]\<close> of line 189 cannot raise, since lines 177 and 178 have put the key
  there; it is read with \<open>dict_get\<close>. The condition \<^verbatim>\<open>word and ...\<close> of line 186 is
  the test that a block was found: a block dictionary is never empty.\<close>

fun cells_loop :: "block list \<Rightarrow> block list \<Rightarrow> rows \<Rightarrow> py_error + rows" where
  "cells_loop blocks [] rows = Inr rows"
| "cells_loop blocks (cell # rest) rows =
     (if BlockType cell = ''CELL'' then
        (let row_index = (case RowIndex cell of None \<Rightarrow> 1 | Some r \<Rightarrow> r);
             col_index = (case ColumnIndex cell of None \<Rightarrow> 1 | Some c \<Rightarrow> c);
             rows = (if map_of rows row_index = None
                     then AList.update row_index [] rows else rows)
         in case cell_text_of blocks cell of
              Inl e \<Rightarrow> Inl e
            | Inr cell_text \<Rightarrow>
                cells_loop blocks rest
                  (AList.update row_index
                     (AList.update col_index cell_text (dict_get rows row_index [])) rows))
      else cells_loop blocks rest rows)"

text \<open>Lines 191 to 193: the rows that one \<^verbatim>\<open>rows\<close> dictionary appends to \<^verbatim>\<open>table\<close>.
  The keys iterated are keys of the dictionaries, so \<^verbatim>\<open>rows[row_idx]\<close> cannot raise.\<close>

definition materialize :: "rows \<Rightarrow> grid" where
  "materialize rows =
     map (\<lambda>row_idx.
            let row = dict_get rows row_idx []
            in map (\<lambda>col. dict_get row col '''') (sort (map fst row)))
         (sort (map fst rows))"

text \<open>The loop over the relationships of one table block, with the list \<^verbatim>\<open>table\<close>;
  then the body of the loop over the table blocks for one of them, that loop with the list
  \<^verbatim>\<open>tables\<close> (a list is true in a condition when it is not empty), and the function.\<close>

fun table_rels :: "block list \<Rightarrow> relationship list \<Rightarrow> grid \<Rightarrow> py_error + grid" where
  "table_rels blocks [] table = Inr table"
| "table_rels blocks (relationship # rest) table =
     (if Type relationship = ''CHILD'' then
        (let cell_ids = Ids relationship;
             cells = filter (\<lambda>block. Id' block \<in> set cell_ids) blocks
         in case cells_loop blocks cells [] of
              Inl e \<Rightarrow> Inl e
            | Inr rows \<Rightarrow> table_rels blocks rest (table @ materialize rows))
      else table_rels blocks rest table)"

definition table_of :: "block list \<Rightarrow> block \<Rightarrow> py_error + grid" where
  "table_of blocks table_block =
     (case Relationships table_block of
        None \<Rightarrow> Inr []
      | Some rels \<Rightarrow> table_rels blocks rels [])"

fun tables_loop :: "block list \<Rightarrow> block list \<Rightarrow> grid list \<Rightarrow> py_error + grid list" where
  "tables_loop blocks [] tables = Inr tables"
| "tables_loop blocks (table_block # rest) tables =
     (case table_of blocks table_block of
        Inl e \<Rightarrow> Inl e
      | Inr table \<Rightarrow>
          if table \<noteq> [] then tables_loop blocks rest (tables @ [table])
          else tables_loop blocks rest tables)"

definition extract_tables :: "response \<Rightarrow> py_error + grid list" where
  "extract_tables response =
     (let table_blocks = filter (\<lambda>block. BlockType block = ''TABLE'') (Blocks response)
      in tables_loop (Blocks response) table_blocks [])"

section \<open>Notions of the specification\<close>

text \<open>The definitions of this section are not code of the program: they state what the
  specification says, for comparison with the functions above.\<close>

subsection \<open>Children of a block\<close>

text \<open>The target ids of the \<^verbatim>\<open>CHILD\<close> relationships of a block, relationships in listed
  order and ids in listed order; a block without relationships has none.\<close>

definition child_ids :: "block \<Rightarrow> string list" where
  "child_ids b =
     concat (map Ids (filter (\<lambda>r. Type r = ''CHILD'')
       (case Relationships b of None \<Rightarrow> [] | Some rels \<Rightarrow> rels)))"

text \<open>The \<^verbatim>\<open>WORD\<close> blocks that a list of ids refers to under a given resolution of ids:
  ids that resolve to nothing and blocks of another type are left out.\<close>

definition words_of :: "(string \<Rightarrow> block option) \<Rightarrow> string list \<Rightarrow> block list" where
  "words_of lookup ids = filter (\<lambda>w. BlockType w = ''WORD'') (List.map_filter lookup ids)"

text \<open>The two resolutions of an id in a collection: the first and the last block that
  bears it.\<close>

definition first_with_id :: "block list \<Rightarrow> string \<Rightarrow> block option" where
  "first_with_id blocks i = find (\<lambda>b. Id' b = i) blocks"

definition last_with_id :: "block list \<Rightarrow> string \<Rightarrow> block option" where
  "last_with_id blocks i = find (\<lambda>b. Id' b = i) (rev blocks)"

text \<open>Removal of trailing whitespace only (\<^verbatim>\<open>s.rstrip()\<close>).\<close>

definition rstrip :: "string \<Rightarrow> string" where
  "rstrip s = rev (dropWhile isspace (rev s))"

subsection \<open>Dangling references\<close>

text \<open>\<^verbatim>\<open>k in d\<close> for a dictionary, and the ids that some block of a collection bears.\<close>

definition has_key :: "('k, 'v) dict \<Rightarrow> 'k \<Rightarrow> bool" where
  "has_key d k \<longleftrightarrow> map_of d k \<noteq> None"

definition has_id :: "block list \<Rightarrow> string \<Rightarrow> bool" where
  "has_id blocks i \<longleftrightarrow> i \<in> Id' ` set blocks"

text \<open>A block with its relationships restricted to the target ids that satisfy \<open>keep\<close>:
  the resolvable subset, when \<open>keep\<close> holds of the ids that resolve.\<close>

definition prune :: "(string \<Rightarrow> bool) \<Rightarrow> block \<Rightarrow> block" where
  "prune keep b =
     b\<lparr>Relationships := map_option (map (\<lambda>r. r\<lparr>Ids := filter keep (Ids r)\<rparr>)) (Relationships b)\<rparr>"

subsection \<open>Lines\<close>

text \<open>The line that a \<^verbatim>\<open>LINE\<close> block contributes according to the specification: its
  text, and the empty line when the text is absent.\<close>

definition line_text :: "block \<Rightarrow> string" where
  "line_text b = (case Text b of None \<Rightarrow> '''' | Some t \<Rightarrow> t)"

subsection \<open>Tables\<close>

text \<open>\<^verbatim>\<open>cell.get('RowIndex', 1)\<close> and \<^verbatim>\<open>cell.get('ColumnIndex', 1)\<close>.\<close>

definition row_index :: "block \<Rightarrow> int" where
  "row_index cell = (case RowIndex cell of None \<Rightarrow> 1 | Some r \<Rightarrow> r)"

definition col_index :: "block \<Rightarrow> int" where
  "col_index cell = (case ColumnIndex cell of None \<Rightarrow> 1 | Some c \<Rightarrow> c)"

text \<open>The text that a \<^verbatim>\<open>rows\<close> dictionary holds at a row and column index, if any.\<close>

definition cell_at :: "rows \<Rightarrow> int \<Rightarrow> int \<Rightarrow> string option" where
  "cell_at rows r c = (case map_of rows r of None \<Rightarrow> None | Some row \<Rightarrow> map_of row c)"

text \<open>The \<^verbatim>\<open>CHILD\<close> relationships of a block in listed order, and the blocks of the
  collection that the code selects for one relationship (line 169): every block whose id is
  among the target ids, in the order of the collection.\<close>

definition child_rels :: "block \<Rightarrow> relationship list" where
  "child_rels b = filter (\<lambda>r. Type r = ''CHILD'')
     (case Relationships b of None \<Rightarrow> [] | Some rels \<Rightarrow> rels)"

definition cells_of :: "block list \<Rightarrow> relationship \<Rightarrow> block list" where
  "cells_of blocks rel = filter (\<lambda>block. Id' block \<in> set (Ids rel)) blocks"

text \<open>The shape of a \<^verbatim>\<open>rows\<close> dictionary that the cell loop maintains: distinct row
  keys, and every row a non-empty dictionary with distinct column keys.\<close>

definition rows_ok :: "rows \<Rightarrow> bool" where
  "rows_ok rows \<longleftrightarrow> distinct (map fst rows) \<and>
     list_all (\<lambda>(r, row). row \<noteq> [] \<and> distinct (map fst row)) rows"

text \<open>What one pass of the cell loop does to \<^verbatim>\<open>rows\<close> (lines 177, 178 and 189).\<close>

definition put_cell :: "int \<Rightarrow> int \<Rightarrow> string \<Rightarrow> rows \<Rightarrow> rows" where
  "put_cell r c t rows =
     (let rows' = (if map_of rows r = None then AList.update r [] rows else rows)
      in AList.update r (AList.update c t (dict_get rows' r [])) rows')"

text \<open>A \<^verbatim>\<open>CELL\<close> block at a given row and column, and the text of the last such cell
  of a list (the empty string when there is none).\<close>

definition at_pos :: "int \<Rightarrow> int \<Rightarrow> block \<Rightarrow> bool" where
  "at_pos r c cell \<longleftrightarrow> BlockType cell = ''CELL'' \<and> row_index cell = r \<and> col_index cell = c"

definition text_at :: "block list \<Rightarrow> block list \<Rightarrow> int \<Rightarrow> int \<Rightarrow> string" where
  "text_at blocks cells r c =
     (case find (at_pos r c) (rev cells) of
        None \<Rightarrow> ''''
      | Some cell \<Rightarrow> projr (cell_text_of blocks cell))"

text \<open>The grid of a list of cells as the specification describes it: the row indices
  that some cell carries, ascending; within a row the column indices that some cell of that
  row carries, ascending; at each position the text of the last cell there. No row is
  padded.\<close>

definition grid_of_cells :: "block list \<Rightarrow> block list \<Rightarrow> grid" where
  "grid_of_cells blocks cells =
     map (\<lambda>r. map (\<lambda>c. text_at blocks cells r c)
                (sorted_list_of_set (set (map col_index
                   (filter (\<lambda>cell. BlockType cell = ''CELL'' \<and> row_index cell = r) cells)))))
         (sorted_list_of_set (set (map row_index
            (filter (\<lambda>cell. BlockType cell = ''CELL'') cells))))"

text \<open>The grid of a table as the specification words it: the target ids of all the
  table's \<^verbatim>\<open>CHILD\<close> relationships, in listed order, resolved through the block
  index, grouped into one grid for the table.\<close>

definition spec_cells :: "block list \<Rightarrow> block \<Rightarrow> block list" where
  "spec_cells blocks tb = List.map_filter (last_with_id blocks) (child_ids tb)"

definition spec_table_grid :: "block list \<Rightarrow> block \<Rightarrow> grid" where
  "spec_table_grid blocks tb = grid_of_cells blocks (spec_cells blocks tb)"

subsection \<open>Forms\<close>

text \<open>The two sides of the partition of the \<^verbatim>\<open>KEY_VALUE_SET\<close> blocks that carry
  entity roles: the roles contain \<^verbatim>\<open>KEY\<close>, or they do not (the empty list of roles
  included).\<close>

definition is_key_block :: "block \<Rightarrow> bool" where
  "is_key_block b \<longleftrightarrow> BlockType b = ''KEY_VALUE_SET'' \<and>
     (case EntityTypes b of None \<Rightarrow> False | Some roles \<Rightarrow> ''KEY'' \<in> set roles)"

definition is_value_block :: "block \<Rightarrow> bool" where
  "is_value_block b \<longleftrightarrow> BlockType b = ''KEY_VALUE_SET'' \<and>
     (case EntityTypes b of None \<Rightarrow> False | Some roles \<Rightarrow> ''KEY'' \<notin> set roles)"

text \<open>The dictionary that results from writing blocks under their ids, in order.\<close>

definition index_by_id :: "block list \<Rightarrow> (string, block) dict \<Rightarrow> (string, block) dict" where
  "index_by_id bs d = fold (\<lambda>b. AList.update (Id' b) b) bs d"

text \<open>The key text and value text that the second loop of \<^verbatim>\<open>extract_forms\<close> computes for
  a key block; the pairs it writes to \<^verbatim>\<open>forms\<close> (both texts non-empty); and these pairs
  for all the entries of the key index, in order.\<close>

definition form_pair ::
  "(string, block) dict \<Rightarrow> (string, block) dict \<Rightarrow> block \<Rightarrow> py_error + string \<times> string" where
  "form_pair value_map block_map key_block =
     (case get_text key_block block_map of
        Inl e \<Rightarrow> Inl e
      | Inr key_text \<Rightarrow>
          (case (case find_value_block key_block value_map of
                   Some vb \<Rightarrow> get_text vb block_map
                 | None \<Rightarrow> Inr '''') of
             Inl e \<Rightarrow> Inl e
           | Inr value_text \<Rightarrow> Inr (key_text, value_text)))"

definition emitted :: "string \<times> string \<Rightarrow> bool" where
  "emitted p \<longleftrightarrow> fst p \<noteq> '''' \<and> snd p \<noteq> ''''"

definition form_pairs ::
  "(string, block) dict \<Rightarrow> (string, block) dict \<Rightarrow> (string, block) dict \<Rightarrow>
   (string \<times> string) list" where
  "form_pairs key_map value_map block_map =
     filter emitted (map (\<lambda>(i, kb). projr (form_pair value_map block_map kb)) key_map)"

section \<open>Example responses\<close>

text \<open>A block dictionary that has only the entries \<^verbatim>\<open>'Id'\<close> and \<^verbatim>\<open>'BlockType'\<close>, and
  a relationship list with a single \<^verbatim>\<open>CHILD\<close> relationship.\<close>

definition bare :: "string \<Rightarrow> string \<Rightarrow> block" where
  "bare i t = \<lparr>Id' = i, BlockType = t, Text = None, EntityTypes = None, RowIndex = None,
     ColumnIndex = None, Relationships = None\<rparr>"

definition child :: "string list \<Rightarrow> relationship list option" where
  "child ids = Some [\<lparr>Type = ''CHILD'', Ids = ids\<rparr>]"

text \<open>Three lines, one of them empty, between words and a page.\<close>

definition ex_lines :: response where
  "ex_lines = \<lparr>Blocks = [
     (bare ''p'' ''PAGE''),
     (bare ''w1'' ''WORD'')\<lparr>Text := Some ''Invoice''\<rparr>,
     (bare ''l1'' ''LINE'')\<lparr>Text := Some ''Invoice #123''\<rparr>,
     (bare ''l2'' ''LINE'')\<lparr>Text := Some ''''\<rparr>,
     (bare ''w2'' ''WORD'')\<lparr>Text := Some ''Total''\<rparr>,
     (bare ''l3'' ''LINE'')\<lparr>Text := Some ''Total 42''\<rparr>]\<rparr>"

text \<open>A key block with two words, a selection element and a dangling id among its
  children; the block index for it; and the same blocks as a collection with a cell.\<close>

definition ex_words :: "block list" where
  "ex_words = [
     (bare ''w1'' ''WORD'')\<lparr>Text := Some ''Total''\<rparr>,
     (bare ''s1'' ''SELECTION_ELEMENT''),
     (bare ''w2'' ''WORD'')\<lparr>Text := Some ''due''\<rparr>]"

definition ex_parent :: "string \<Rightarrow> block" where
  "ex_parent t = (bare ''k1'' t)\<lparr>Relationships :=
     Some [\<lparr>Type = ''CHILD'', Ids = [''w1'', ''s1'']\<rparr>, \<lparr>Type = ''VALUE'', Ids = [''w2'']\<rparr>,
           \<lparr>Type = ''CHILD'', Ids = [''gone'', ''w2'']\<rparr>]\<rparr>"

definition ex_word_map :: "(string, block) dict" where
  "ex_word_map = map (\<lambda>b. (Id' b, b)) ex_words"

text \<open>A key block whose only word begins with a space.\<close>

definition cx_space_map :: "(string, block) dict" where
  "cx_space_map = [(''w1'', (bare ''w1'' ''WORD'')\<lparr>Text := Some '' Total''\<rparr>)]"

definition cx_space_key :: block where
  "cx_space_key = (bare ''k1'' ''KEY_VALUE_SET'')\<lparr>Relationships := child [''w1'']\<rparr>"

text \<open>The table of the specification's example: cells at (1,1), (1,2) and (2,1), listed
  out of order together with a dangling id and a word; the cell at (1,1) leaves its
  indices out.\<close>

definition ex_grid_table :: block where
  "ex_grid_table = (bare ''t'' ''TABLE'')\<lparr>Relationships :=
     child [''c21'', ''gone'', ''c12'', ''c11'', ''wa'']\<rparr>"

definition ex_grid :: response where
  "ex_grid = \<lparr>Blocks = [
     ex_grid_table,
     (bare ''c12'' ''CELL'')\<lparr>RowIndex := Some 1, ColumnIndex := Some 2,
        Relationships := child [''wb'']\<rparr>,
     (bare ''c21'' ''CELL'')\<lparr>RowIndex := Some 2, ColumnIndex := Some 1,
        Relationships := child [''wc'', ''lost'']\<rparr>,
     (bare ''c11'' ''CELL'')\<lparr>Relationships := child [''wa'']\<rparr>,
     (bare ''wa'' ''WORD'')\<lparr>Text := Some ''A''\<rparr>,
     (bare ''wb'' ''WORD'')\<lparr>Text := Some ''B''\<rparr>,
     (bare ''wc'' ''WORD'')\<lparr>Text := Some ''C''\<rparr>]\<rparr>"

text \<open>Two cells and their words, for tables that refer to them in different ways.\<close>

definition two_cells :: "int \<Rightarrow> int \<Rightarrow> int \<Rightarrow> int \<Rightarrow> block list" where
  "two_cells r1 k1 r2 k2 = [
     (bare ''c1'' ''CELL'')\<lparr>RowIndex := Some r1, ColumnIndex := Some k1,
        Relationships := child [''wa'']\<rparr>,
     (bare ''c2'' ''CELL'')\<lparr>RowIndex := Some r2, ColumnIndex := Some k2,
        Relationships := child [''wb'']\<rparr>,
     (bare ''wa'' ''WORD'')\<lparr>Text := Some ''A''\<rparr>,
     (bare ''wb'' ''WORD'')\<lparr>Text := Some ''B''\<rparr>]"

text \<open>A table with two \<^verbatim>\<open>CHILD\<close> relationships, the first to the second cell.\<close>

definition cx_split_table :: block where
  "cx_split_table = (bare ''t'' ''TABLE'')\<lparr>Relationships :=
     Some [\<lparr>Type = ''CHILD'', Ids = [''c2'']\<rparr>, \<lparr>Type = ''CHILD'', Ids = [''c1'']\<rparr>]\<rparr>"

text \<open>A table with one \<^verbatim>\<open>CHILD\<close> relationship that lists the second cell first.\<close>

definition cx_listed_table :: block where
  "cx_listed_table = (bare ''t'' ''TABLE'')\<lparr>Relationships := child [''c2'', ''c1'']\<rparr>"

text \<open>A table whose children are a word and a dangling id.\<close>

definition ex_no_cells_table :: block where
  "ex_no_cells_table = (bare ''t0'' ''TABLE'')\<lparr>Relationships := child [''wa'', ''gone'']\<rparr>"

text \<open>The end-to-end scenario of the specification: a line, a key block with the word
  \<open>Total\<close>, and its value block, which has an empty list of roles, with the word \<open>42\<close>.\<close>

definition ex_key :: block where
  "ex_key = (bare ''k1'' ''KEY_VALUE_SET'')\<lparr>EntityTypes := Some [''KEY''],
     Relationships := Some [\<lparr>Type = ''CHILD'', Ids = [''wt'']\<rparr>, \<lparr>Type = ''VALUE'', Ids = [''id2'']\<rparr>]\<rparr>"

definition ex_value :: block where
  "ex_value = (bare ''id2'' ''KEY_VALUE_SET'')\<lparr>EntityTypes := Some [],
     Relationships := child [''wv'']\<rparr>"

definition ex_invoice :: response where
  "ex_invoice = \<lparr>Blocks = [
     (bare ''l1'' ''LINE'')\<lparr>Text := Some ''Invoice #123''\<rparr>,
     ex_key,
     ex_value,
     (bare ''wt'' ''WORD'')\<lparr>Text := Some ''Total''\<rparr>,
     (bare ''wv'' ''WORD'')\<lparr>Text := Some ''42''\<rparr>]\<rparr>"

text \<open>Two key blocks with the same key text \<open>Name\<close> and the value texts \<open>A\<close> and
  \<open>B\<close>.\<close>

definition cx_name_key :: "string \<Rightarrow> string \<Rightarrow> block" where
  "cx_name_key i v = (bare i ''KEY_VALUE_SET'')\<lparr>EntityTypes := Some [''KEY''],
     Relationships := Some [\<lparr>Type = ''CHILD'', Ids = [''wn'']\<rparr>, \<lparr>Type = ''VALUE'', Ids = [v]\<rparr>]\<rparr>"

definition cx_name_value :: "string \<Rightarrow> string \<Rightarrow> block" where
  "cx_name_value i w = (bare i ''KEY_VALUE_SET'')\<lparr>EntityTypes := Some [''VALUE''],
     Relationships := child [w]\<rparr>"

definition cx_same_key :: response where
  "cx_same_key = \<lparr>Blocks = [
     cx_name_key ''k1'' ''v1'',
     cx_name_key ''k2'' ''v2'',
     cx_name_value ''v1'' ''wa'',
     cx_name_value ''v2'' ''wb'',
     (bare ''wn'' ''WORD'')\<lparr>Text := Some ''Name''\<rparr>,
     (bare ''wa'' ''WORD'')\<lparr>Text := Some ''A''\<rparr>,
     (bare ''wb'' ''WORD'')\<lparr>Text := Some ''B''\<rparr>]\<rparr>"

text \<open>A line without text, and a \<^verbatim>\<open>KEY_VALUE_SET\<close> block without entity roles.\<close>

definition cx_no_text :: response where
  "cx_no_text = \<lparr>Blocks = [(bare ''l1'' ''LINE'')\<lparr>Text := Some ''Invoice''\<rparr>, bare ''l2'' ''LINE'']\<rparr>"

definition cx_no_roles :: response where
  "cx_no_roles = \<lparr>Blocks = [ex_key, (bare ''id2'' ''KEY_VALUE_SET'')\<lparr>Relationships := child [''wv'']\<rparr>,
     (bare ''wt'' ''WORD'')\<lparr>Text := Some ''Total''\<rparr>,
     (bare ''wv'' ''WORD'')\<lparr>Text := Some ''42''\<rparr>]\<rparr>"

text \<open>A collection in which two words share the id \<open>w\<close>, and a value block shares the id
  \<open>v\<close> with a later word. The cell and the value block both have the child \<open>w\<close>.\<close>

definition cx_dup_cell :: block where
  "cx_dup_cell = (bare ''c'' ''CELL'')\<lparr>Relationships := child [''w'']\<rparr>"

definition cx_dup_key :: block where
  "cx_dup_key = (bare ''k'' ''KEY_VALUE_SET'')\<lparr>EntityTypes := Some [''KEY''],
     Relationships := Some [\<lparr>Type = ''VALUE'', Ids = [''v'']\<rparr>]\<rparr>"

definition cx_dup_value :: block where
  "cx_dup_value = (bare ''v'' ''KEY_VALUE_SET'')\<lparr>EntityTypes := Some [''VALUE''],
     Relationships := child [''w'']\<rparr>"

definition cx_dup :: "block list" where
  "cx_dup = [
     (bare ''t'' ''TABLE'')\<lparr>Relationships := child [''c'']\<rparr>,
     cx_dup_cell,
     (bare ''w'' ''WORD'')\<lparr>Text := Some ''first''\<rparr>,
     (bare ''w'' ''WORD'')\<lparr>Text := Some ''last''\<rparr>,
     cx_dup_key,
     cx_dup_value,
     (bare ''v'' ''WORD'')\<lparr>Text := Some ''other''\<rparr>]"

text \<open>Three lines after a word, the second line without a text.\<close>

definition cx_line_gap :: response where
  "cx_line_gap = \<lparr>Blocks = [
     (bare ''w1'' ''WORD'')\<lparr>Text := Some ''Invoice''\<rparr>,
     (bare ''l1'' ''LINE'')\<lparr>Text := Some ''Invoice''\<rparr>,
     bare ''l2'' ''LINE'',
     (bare ''l3'' ''LINE'')\<lparr>Text := Some ''Total''\<rparr>]\<rparr>"

section \<open>Text assembly\<close>

lemma extract_text_loop_lines:
  "\<forall>b \<in> set bs. BlockType b = ''LINE'' \<longrightarrow> Text b \<noteq> None \<Longrightarrow>
   extract_text_loop bs acc =
     Inr (acc @ map (\<lambda>b. the (Text b)) (filter (\<lambda>b. BlockType b = ''LINE'') bs))"
  by (induction bs arbitrary: acc) auto

text \<open>
  Claim C1, as amended. For every block collection in which every \<^verbatim>\<open>LINE\<close> block
  carries a text, \<^verbatim>\<open>extract_text\<close> returns the texts of the \<^verbatim>\<open>LINE\<close> blocks, in the
  order of the collection, joined with one newline; blocks of any other type between them
  change nothing.
\<close>

theorem C1_text_order:
  assumes "\<forall>b \<in> set (Blocks response). BlockType b = ''LINE'' \<longrightarrow> Text b \<noteq> None"
  shows "extract_text response =
           Inr (join [CHR 0x0A]
                  (map (\<lambda>b. the (Text b))
                     (filter (\<lambda>b. BlockType b = ''LINE'') (Blocks response))))"
  using extract_text_loop_lines [OF assms, of "[]"] by (simp add: extract_text_def)

theorem C1_text_order_witness:
  "extract_text ex_lines =
     Inr (''Invoice #123'' @ [CHR 0x0A] @ '''' @ [CHR 0x0A] @ ''Total 42'')"
proof -
  have h: "\<forall>b \<in> set (Blocks ex_lines). BlockType b = ''LINE'' \<longrightarrow> Text b \<noteq> None"
    by (simp add: ex_lines_def bare_def)
  show ?thesis using C1_text_order [OF h] by (simp add: ex_lines_def bare_def)
qed

text \<open>Without the condition the claim fails: a \<^verbatim>\<open>LINE\<close> block without a text makes
  \<^verbatim>\<open>block['Text']\<close> raise, where the lines of the blocks, the absent text read as an
  empty line, would be joined to \<open>Invoice\<close>, an empty line and \<open>Total\<close>.\<close>

theorem C1_counterexample:
  "extract_text cx_line_gap = Inl (KeyError ''Text'') \<and>
   join [CHR 0x0A]
     (map line_text (filter (\<lambda>b. BlockType b = ''LINE'') (Blocks cx_line_gap))) =
     ''Invoice'' @ [CHR 0x0A] @ [CHR 0x0A] @ ''Total''"
  by (simp add: extract_text_def cx_line_gap_def bare_def line_text_def)

section \<open>Display text of a block\<close>

lemma isspace_space: "isspace CHR '' ''"
  by (simp add: isspace_def)

lemma strip_snoc_space: "isspace c \<Longrightarrow> strip (s @ [c]) = strip s"
proof (cases "\<forall>x \<in> set s. isspace x")
  case True
  assume c: "isspace c"
  from True have a: "dropWhile isspace s = []" by simp
  from True c have b: "dropWhile isspace (s @ [c]) = []"
    unfolding dropWhile_eq_Nil_conv by simp
  show ?thesis unfolding strip_def a b by simp
next
  case False
  assume c: "isspace c"
  from False have "dropWhile isspace (s @ [c]) = dropWhile isspace s @ [c]"
    by (auto simp: dropWhile_append)
  with c show ?thesis by (simp add: strip_def)
qed

lemma concat_spaced:
  "ts \<noteq> [] \<Longrightarrow> concat (map (\<lambda>t. t @ '' '') ts) = join '' '' ts @ '' ''"
  by (induction ts rule: induct_list012) auto

lemma strip_spaced: "strip (concat (map (\<lambda>t. t @ '' '') ts)) = strip (join '' '' ts)"
proof (cases ts)
  case Nil
  then show ?thesis by simp
next
  case (Cons t ts')
  then have "concat (map (\<lambda>t. t @ '' '') ts) = join '' '' ts @ '' ''"
    using concat_spaced by blast
  then show ?thesis using strip_snoc_space [OF isspace_space] by simp
qed

lemma words_of_Nil: "words_of lookup [] = []"
  by (simp add: words_of_def map_filter_simps)

lemma words_of_Cons:
  "words_of lookup (i # ids) =
     (case lookup i of None \<Rightarrow> words_of lookup ids
      | Some w \<Rightarrow> if BlockType w = ''WORD'' then w # words_of lookup ids else words_of lookup ids)"
  by (simp add: words_of_def map_filter_simps split: option.splits)

lemma words_of_append: "words_of lookup (xs @ ys) = words_of lookup xs @ words_of lookup ys"
  by (simp add: words_of_def List.map_filter_def)

lemma get_text_ids_words:
  "\<forall>w \<in> set (words_of (map_of bm) ids). Text w \<noteq> None \<Longrightarrow>
   get_text_ids ids bm acc =
     Inr (acc @ concat (map (\<lambda>w. the (Text w) @ '' '') (words_of (map_of bm) ids)))"
  by (induction ids arbitrary: acc) (auto simp: words_of_Nil words_of_Cons split: option.splits)

lemma get_text_rels_words:
  "\<forall>w \<in> set (words_of (map_of bm) (concat (map Ids (filter (\<lambda>r. Type r = ''CHILD'') rels)))).
      Text w \<noteq> None \<Longrightarrow>
   get_text_rels rels bm acc =
     Inr (acc @ concat (map (\<lambda>w. the (Text w) @ '' '')
        (words_of (map_of bm) (concat (map Ids (filter (\<lambda>r. Type r = ''CHILD'') rels))))))"
  by (induction rels arbitrary: acc) (auto simp: words_of_Nil words_of_append get_text_ids_words)

lemma cell_text_ids_words:
  "\<forall>w \<in> set (words_of (first_with_id blocks) ids). Text w \<noteq> None \<Longrightarrow>
   cell_text_ids blocks ids acc =
     Inr (acc @ concat (map (\<lambda>w. the (Text w) @ '' '') (words_of (first_with_id blocks) ids)))"
  by (induction ids arbitrary: acc)
     (auto simp: words_of_Nil words_of_Cons first_with_id_def split: option.splits)

lemma cell_text_rels_words:
  "\<forall>w \<in> set (words_of (first_with_id blocks)
       (concat (map Ids (filter (\<lambda>r. Type r = ''CHILD'') rels)))). Text w \<noteq> None \<Longrightarrow>
   cell_text_rels blocks rels acc =
     Inr (acc @ concat (map (\<lambda>w. the (Text w) @ '' '')
        (words_of (first_with_id blocks)
           (concat (map Ids (filter (\<lambda>r. Type r = ''CHILD'') rels))))))"
  by (induction rels arbitrary: acc) (auto simp: words_of_Nil words_of_append cell_text_ids_words)

lemma get_text_words:
  assumes "\<forall>w \<in> set (words_of (map_of bm) (child_ids b)). Text w \<noteq> None"
  shows "get_text b bm =
           Inr (strip (join '' '' (map (\<lambda>w. the (Text w)) (words_of (map_of bm) (child_ids b)))))"
proof (cases "Relationships b")
  case None
  then show ?thesis by (simp add: get_text_def child_ids_def words_of_Nil)
next
  case (Some rels)
  with assms have "get_text_rels rels bm [] =
      Inr ([] @ concat (map (\<lambda>w. the (Text w) @ '' '') (words_of (map_of bm) (child_ids b))))"
    using get_text_rels_words [of bm rels "[]"] by (simp add: child_ids_def)
  with Some show ?thesis
    using strip_spaced [of "map (\<lambda>w. the (Text w)) (words_of (map_of bm) (child_ids b))"]
    by (simp add: get_text_def comp_def)
qed

lemma cell_text_of_words:
  assumes "\<forall>w \<in> set (words_of (first_with_id blocks) (child_ids b)). Text w \<noteq> None"
  shows "cell_text_of blocks b =
           Inr (strip (join '' ''
             (map (\<lambda>w. the (Text w)) (words_of (first_with_id blocks) (child_ids b)))))"
proof (cases "Relationships b")
  case None
  then show ?thesis by (simp add: cell_text_of_def child_ids_def words_of_Nil)
next
  case (Some rels)
  with assms have "cell_text_rels blocks rels [] =
      Inr ([] @ concat (map (\<lambda>w. the (Text w) @ '' '')
        (words_of (first_with_id blocks) (child_ids b))))"
    using cell_text_rels_words [of blocks rels "[]"] by (simp add: child_ids_def)
  with Some show ?thesis
    using strip_spaced
      [of "map (\<lambda>w. the (Text w)) (words_of (first_with_id blocks) (child_ids b))"]
    by (simp add: cell_text_of_def comp_def)
qed

text \<open>
  Claim C5, as amended. The display text of a key or value block (\<^verbatim>\<open>get_text\<close>, ids
  resolved in the block index) and of a cell (ids resolved to the first block of the
  collection with that id) is the texts of the \<^verbatim>\<open>WORD\<close> blocks that its \<^verbatim>\<open>CHILD\<close>
  relationships refer to, in listed order, joined with one space, with the whitespace at
  both ends removed; children that are not \<^verbatim>\<open>WORD\<close> blocks contribute nothing. This
  holds whenever the words referred to carry a text.
\<close>

theorem C5_display_text:
  "((\<forall>w \<in> set (words_of (map_of block_map) (child_ids block)). Text w \<noteq> None) \<longrightarrow>
      get_text block block_map =
        Inr (strip (join '' ''
          (map (\<lambda>w. the (Text w)) (words_of (map_of block_map) (child_ids block)))))) \<and>
   ((\<forall>w \<in> set (words_of (first_with_id blocks) (child_ids cell)). Text w \<noteq> None) \<longrightarrow>
      cell_text_of blocks cell =
        Inr (strip (join '' ''
          (map (\<lambda>w. the (Text w)) (words_of (first_with_id blocks) (child_ids cell))))))"
  using get_text_words cell_text_of_words by blast

theorem C5_display_text_witness:
  "get_text (ex_parent ''KEY_VALUE_SET'') ex_word_map = Inr ''Total due'' \<and>
   cell_text_of ex_words (ex_parent ''CELL'') = Inr ''Total due''"
proof -
  have ids: "child_ids (ex_parent t) = [''w1'', ''s1'', ''gone'', ''w2'']" for t
    by (simp add: child_ids_def ex_parent_def bare_def)
  have w1: "words_of (map_of ex_word_map) [''w1'', ''s1'', ''gone'', ''w2''] =
      [(bare ''w1'' ''WORD'')\<lparr>Text := Some ''Total''\<rparr>, (bare ''w2'' ''WORD'')\<lparr>Text := Some ''due''\<rparr>]"
    by (simp add: words_of_def map_filter_simps ex_word_map_def ex_words_def bare_def)
  have w2: "words_of (first_with_id ex_words) [''w1'', ''s1'', ''gone'', ''w2''] =
      [(bare ''w1'' ''WORD'')\<lparr>Text := Some ''Total''\<rparr>, (bare ''w2'' ''WORD'')\<lparr>Text := Some ''due''\<rparr>]"
    by (simp add: words_of_def map_filter_simps first_with_id_def ex_words_def bare_def)
  have s: "strip ''Total due'' = ''Total due''"
    by (simp add: strip_def isspace_def)
  show ?thesis
    using C5_display_text [of ex_word_map "ex_parent ''KEY_VALUE_SET''" ex_words "ex_parent ''CELL''"]
    by (simp add: ids w1 w2 s bare_def)
qed

text \<open>The claim as stated removes trailing whitespace only. A word that begins with a
  space shows the difference: the code removes the leading space as well.\<close>

theorem C5_counterexample:
  "get_text cx_space_key cx_space_map = Inr ''Total'' \<and>
   rstrip (join '' '' (map (\<lambda>w. the (Text w))
      (words_of (map_of cx_space_map) (child_ids cx_space_key)))) = '' Total''"
  by (simp add: get_text_def cx_space_key_def cx_space_map_def child_def bare_def strip_def
      rstrip_def isspace_def child_ids_def words_of_def map_filter_simps)

section \<open>Dangling references\<close>

lemma get_text_ids_prune:
  "get_text_ids (filter (has_key bm) ids) bm acc = get_text_ids ids bm acc"
  by (induction ids arbitrary: acc) (auto simp: has_key_def split: option.splits)

lemma get_text_rels_prune:
  "get_text_rels (map (\<lambda>r. r\<lparr>Ids := filter (has_key bm) (Ids r)\<rparr>) rels) bm acc =
   get_text_rels rels bm acc"
  by (induction rels arbitrary: acc) (auto simp: get_text_ids_prune split: sum.splits)

lemma get_text_prune: "get_text (prune (has_key bm) b) bm = get_text b bm"
  by (cases "Relationships b") (simp_all add: get_text_def prune_def get_text_rels_prune)

lemma find_value_ids_prune:
  "find_value_ids (filter (has_key vm) ids) vm = find_value_ids ids vm"
  by (induction ids) (auto simp: has_key_def split: option.splits)

lemma find_value_rels_prune:
  "find_value_rels (map (\<lambda>r. r\<lparr>Ids := filter (has_key vm) (Ids r)\<rparr>) rels) vm =
   find_value_rels rels vm"
  by (induction rels) (auto simp: find_value_ids_prune split: option.splits)

lemma find_value_block_prune:
  "find_value_block (prune (has_key vm) b) vm = find_value_block b vm"
  by (cases "Relationships b") (simp_all add: find_value_block_def prune_def find_value_rels_prune)

lemma find_None_iff_ids: "find (\<lambda>b. Id' b = i) blocks = None \<longleftrightarrow> i \<notin> Id' ` set blocks"
  by (auto simp: find_None_iff)

lemma cell_text_ids_prune:
  "cell_text_ids blocks (filter (has_id blocks) ids) acc = cell_text_ids blocks ids acc"
proof (induction ids arbitrary: acc)
  case Nil
  then show ?case by simp
next
  case (Cons i ids)
  show ?case
  proof (cases "has_id blocks i")
    case True
    then show ?thesis using Cons by (simp split: option.splits)
  next
    case False
    then have "find (\<lambda>b. Id' b = i) blocks = None"
      by (simp add: find_None_iff_ids has_id_def)
    with False show ?thesis using Cons by simp
  qed
qed

lemma cell_text_rels_prune:
  "cell_text_rels blocks (map (\<lambda>r. r\<lparr>Ids := filter (has_id blocks) (Ids r)\<rparr>) rels) acc =
   cell_text_rels blocks rels acc"
  by (induction rels arbitrary: acc) (auto simp: cell_text_ids_prune split: sum.splits)

lemma cell_text_of_prune:
  "cell_text_of blocks (prune (has_id blocks) b) = cell_text_of blocks b"
  by (cases "Relationships b") (simp_all add: cell_text_of_def prune_def cell_text_rels_prune)

lemma cells_prune:
  "filter (\<lambda>block. Id' block \<in> set ids \<and> has_id blocks (Id' block)) blocks =
   filter (\<lambda>block. Id' block \<in> set ids) blocks"
  by (rule filter_cong) (auto simp: has_id_def)

lemma table_rels_prune:
  "table_rels blocks (map (\<lambda>r. r\<lparr>Ids := filter (has_id blocks) (Ids r)\<rparr>) rels) table =
   table_rels blocks rels table"
  by (induction rels arbitrary: table) (simp_all add: cells_prune Let_def split: sum.splits)

lemma table_of_prune:
  "table_of blocks (prune (has_id blocks) b) = table_of blocks b"
  by (cases "Relationships b") (simp_all add: table_of_def prune_def table_rels_prune)

text \<open>
  Claim C7. A target id that matches no block never makes an extractor fail: the text of a
  block (\<^verbatim>\<open>get_text\<close>), the value block paired with a key (\<^verbatim>\<open>find_value_block\<close>), the
  grid of a table and the text of a cell are each the same as for the block whose
  relationships list the resolvable ids only, failures included. Resolvable means a key of
  the index for the first two, and the id of a block of the collection for the tables.
\<close>

theorem C7_dangling_ids_skipped:
  "get_text (prune (has_key block_map) b) block_map = get_text b block_map \<and>
   find_value_block (prune (has_key value_map) b) value_map = find_value_block b value_map \<and>
   table_of blocks (prune (has_id blocks) b) = table_of blocks b \<and>
   cell_text_of blocks (prune (has_id blocks) b) = cell_text_of blocks b"
  by (simp add: get_text_prune find_value_block_prune table_of_prune cell_text_of_prune)

section \<open>Table grids\<close>

lemma cells_loop_Cons:
  "cells_loop blocks (cell # rest) rows =
     (if BlockType cell = ''CELL'' then
        (case cell_text_of blocks cell of
           Inl e \<Rightarrow> Inl e
         | Inr t \<Rightarrow> cells_loop blocks rest (put_cell (row_index cell) (col_index cell) t rows))
      else cells_loop blocks rest rows)"
  by (simp add: put_cell_def row_index_def col_index_def Let_def split: sum.splits)

lemma put_cell_eq:
  "put_cell r c t rows =
     AList.update r (AList.update c t (case map_of rows r of None \<Rightarrow> [] | Some row \<Rightarrow> row)) rows"
  by (cases "map_of rows r") (simp_all add: put_cell_def dict_get_def update_conv')

lemma cell_at_put_cell:
  "cell_at (put_cell r c t rows) r' c' =
     (if r' = r \<and> c' = c then Some t else cell_at rows r' c')"
  by (auto simp: put_cell_eq cell_at_def update_conv' split: option.splits)

lemma keys_put_cell: "fst ` set (put_cell r c t rows) = insert r (fst ` set rows)"
  by (simp add: put_cell_eq dom_update)

lemma set_update_subset: "set (AList.update k v al) \<subseteq> insert (k, v) (set al)"
  by (induction al) auto

lemma rows_okD:
  "rows_ok rows \<Longrightarrow> (r, row) \<in> set rows \<Longrightarrow> row \<noteq> [] \<and> distinct (map fst row)"
  unfolding rows_ok_def list_all_iff by fast

lemma rows_ok_put_cell:
  assumes "rows_ok rows"
  shows "rows_ok (put_cell r c t rows)"
proof -
  define old where "old = (case map_of rows r of None \<Rightarrow> [] | Some row \<Rightarrow> row)"
  define new where "new = AList.update c t old"
  have d: "distinct (map fst old)"
  proof (cases "map_of rows r")
    case None
    then show ?thesis by (simp add: old_def)
  next
    case (Some row)
    then have "(r, row) \<in> set rows" by (rule map_of_SomeD)
    from rows_okD [OF assms this] Some show ?thesis by (simp add: old_def)
  qed
  have new: "new \<noteq> [] \<and> distinct (map fst new)"
    using d by (simp add: new_def distinct_update)
  have eq: "put_cell r c t rows = AList.update r new rows"
    by (simp add: put_cell_eq new_def old_def)
  have sub: "set (AList.update r new rows) \<subseteq> insert (r, new) (set rows)"
    by (rule set_update_subset)
  have "list_all (\<lambda>(r, row). row \<noteq> [] \<and> distinct (map fst row)) (AList.update r new rows)"
    unfolding list_all_iff
  proof
    fix x assume "x \<in> set (AList.update r new rows)"
    with sub have "x = (r, new) \<or> x \<in> set rows" by blast
    then show "case x of (r, row) \<Rightarrow> row \<noteq> [] \<and> distinct (map fst row)"
    proof
      assume "x = (r, new)"
      with new show ?thesis by simp
    next
      assume "x \<in> set rows"
      then show ?thesis using rows_okD [OF assms, of "fst x" "snd x"]
        by (simp add: case_prod_beta)
    qed
  qed
  moreover from assms have "distinct (map fst (AList.update r new rows))"
    by (simp add: rows_ok_def distinct_update)
  ultimately show ?thesis by (simp add: rows_ok_def eq)
qed

lemma cells_loop_rows_ok:
  "cells_loop blocks cells rows0 = Inr rows \<Longrightarrow> rows_ok rows0 \<Longrightarrow> rows_ok rows"
proof (induction cells arbitrary: rows0)
  case Nil
  then show ?case by simp
next
  case (Cons cell rest)
  show ?case
  proof (cases "BlockType cell = ''CELL''")
    case True
    with Cons.prems obtain t where t: "cell_text_of blocks cell = Inr t"
      and run: "cells_loop blocks rest (put_cell (row_index cell) (col_index cell) t rows0) = Inr rows"
      by (auto simp: cells_loop_Cons simp del: cells_loop.simps split: sum.splits)
    from Cons.IH [OF run] Cons.prems(2) show ?thesis by (simp add: rows_ok_put_cell)
  next
    case False
    with Cons show ?thesis by (simp add: cells_loop_Cons del: cells_loop.simps)
  qed
qed

lemma find_snoc:
  "find P (xs @ [x]) =
     (case find P xs of Some y \<Rightarrow> Some y | None \<Rightarrow> if P x then Some x else None)"
  by (induction xs) auto

lemma cells_loop_cell_at:
  "cells_loop blocks cells rows0 = Inr rows \<Longrightarrow>
   cell_at rows r c =
     (case find (at_pos r c) (rev cells) of
        None \<Rightarrow> cell_at rows0 r c
      | Some cell \<Rightarrow> Some (projr (cell_text_of blocks cell)))"
proof (induction cells arbitrary: rows0)
  case Nil
  then show ?case by simp
next
  case (Cons cell rest)
  show ?case
  proof (cases "BlockType cell = ''CELL''")
    case True
    with Cons.prems obtain t where t: "cell_text_of blocks cell = Inr t"
      and run: "cells_loop blocks rest (put_cell (row_index cell) (col_index cell) t rows0) = Inr rows"
      by (auto simp: cells_loop_Cons simp del: cells_loop.simps split: sum.splits)
    from Cons.IH [OF run] t True show ?thesis
      by (auto simp: find_snoc cell_at_put_cell at_pos_def split: option.splits)
  next
    case False
    with Cons.prems have run: "cells_loop blocks rest rows0 = Inr rows"
      by (simp add: cells_loop_Cons del: cells_loop.simps)
    from Cons.IH [OF run] False show ?thesis
      by (auto simp: find_snoc at_pos_def split: option.splits)
  qed
qed

lemma cells_loop_keys:
  "cells_loop blocks cells rows0 = Inr rows \<Longrightarrow>
   fst ` set rows = fst ` set rows0 \<union> row_index ` {cell \<in> set cells. BlockType cell = ''CELL''}"
proof (induction cells arbitrary: rows0)
  case Nil
  then show ?case by simp
next
  case (Cons cell rest)
  show ?case
  proof (cases "BlockType cell = ''CELL''")
    case True
    with Cons.prems obtain t where t: "cell_text_of blocks cell = Inr t"
      and run: "cells_loop blocks rest (put_cell (row_index cell) (col_index cell) t rows0) = Inr rows"
      by (auto simp: cells_loop_Cons simp del: cells_loop.simps split: sum.splits)
    from Cons.IH [OF run] True show ?thesis
      by (auto simp: keys_put_cell)
  next
    case False
    with Cons.prems have run: "cells_loop blocks rest rows0 = Inr rows"
      by (simp add: cells_loop_Cons del: cells_loop.simps)
    from Cons.IH [OF run] False show ?thesis by auto
  qed
qed

lemma cells_loop_no_cells:
  "\<forall>cell \<in> set cells. BlockType cell \<noteq> ''CELL'' \<Longrightarrow> cells_loop blocks cells rows0 = Inr rows0"
  by (induction cells) simp_all

lemma materialize_Nil: "materialize [] = []"
  by (simp add: materialize_def)

lemma sort_eq_Nil: "sort xs = [] \<longleftrightarrow> xs = []"
  using length_sort [of "\<lambda>x. x" xs] by (metis length_0_conv)

lemma materialize_eq_Nil: "materialize rows = [] \<longleftrightarrow> rows = []"
  by (simp add: materialize_def sort_eq_Nil)

lemma materialize_rows_nonempty:
  assumes "rows_ok rows" and "row \<in> set (materialize rows)"
  shows "row \<noteq> []"
proof -
  from assms(2) obtain r where r: "r \<in> fst ` set rows"
    and row: "row = map (\<lambda>col. dict_get (dict_get rows r []) col '''')
                      (sort (map fst (dict_get rows r [])))"
    by (auto simp: materialize_def Let_def)
  from r have "map_of rows r \<noteq> None"
    by (simp add: map_of_eq_None_iff)
  then obtain d where d: "map_of rows r = Some d" by blast
  then have "(r, d) \<in> set rows" by (rule map_of_SomeD)
  with assms(1) have "d \<noteq> []" using rows_okD by blast
  with d row show ?thesis by (simp add: dict_get_def sort_eq_Nil)
qed

lemma table_rels_split:
  "table_rels blocks rels table = Inr grid \<Longrightarrow>
   \<exists>rowss. list_all2 (\<lambda>rel rows. cells_loop blocks (cells_of blocks rel) [] = Inr rows)
              (filter (\<lambda>r. Type r = ''CHILD'') rels) rowss \<and>
           grid = table @ concat (map materialize rowss)"
proof (induction rels arbitrary: table)
  case Nil
  then show ?case by simp
next
  case (Cons rel rest)
  show ?case
  proof (cases "Type rel = ''CHILD''")
    case True
    with Cons.prems obtain rows where rows: "cells_loop blocks (cells_of blocks rel) [] = Inr rows"
      and run: "table_rels blocks rest (table @ materialize rows) = Inr grid"
      by (auto simp: cells_of_def Let_def split: sum.splits)
    from Cons.IH [OF run] obtain rowss where
      "list_all2 (\<lambda>rel rows. cells_loop blocks (cells_of blocks rel) [] = Inr rows)
         (filter (\<lambda>r. Type r = ''CHILD'') rest) rowss"
      "grid = (table @ materialize rows) @ concat (map materialize rowss)" by blast
    with rows True show ?thesis
      by (intro exI [of _ "rows # rowss"]) simp
  next
    case False
    with Cons show ?thesis by simp
  qed
qed

lemma table_of_split:
  assumes "table_of blocks tb = Inr grid"
  shows "\<exists>rowss. list_all2 (\<lambda>rel rows. cells_loop blocks (cells_of blocks rel) [] = Inr rows)
              (child_rels tb) rowss \<and>
           grid = concat (map materialize rowss)"
proof (cases "Relationships tb")
  case None
  with assms show ?thesis by (simp add: table_of_def child_rels_def)
next
  case (Some rels)
  with assms have "table_rels blocks rels [] = Inr grid" by (simp add: table_of_def)
  from table_rels_split [OF this] Some show ?thesis by (simp add: child_rels_def)
qed

lemma sort_distinct_keys:
  "distinct (map fst al) \<Longrightarrow> sort (map fst al) = sorted_list_of_set (fst ` set al)"
  by (simp add: sorted_list_of_set_sort_remdups distinct_remdups_id flip: set_map)

lemma find_at_pos_None:
  "find (at_pos r c) (rev cells) = None \<longleftrightarrow>
   c \<notin> col_index ` {cell \<in> set cells. BlockType cell = ''CELL'' \<and> row_index cell = r}"
  by (auto simp: find_None_iff at_pos_def)

lemma cells_loop_row_keys:
  assumes run: "cells_loop blocks cells [] = Inr rows" and r: "map_of rows r = Some row"
  shows "fst ` set row = col_index ` {cell \<in> set cells. BlockType cell = ''CELL'' \<and> row_index cell = r}"
proof -
  have "c \<in> fst ` set row \<longleftrightarrow>
        c \<in> col_index ` {cell \<in> set cells. BlockType cell = ''CELL'' \<and> row_index cell = r}" for c
  proof -
    have "c \<in> fst ` set row \<longleftrightarrow> map_of row c \<noteq> None"
      by (simp add: map_of_eq_None_iff)
    also have "\<dots> \<longleftrightarrow> cell_at rows r c \<noteq> None"
      using r by (simp add: cell_at_def)
    also have "\<dots> \<longleftrightarrow> find (at_pos r c) (rev cells) \<noteq> None"
      using cells_loop_cell_at [OF run, of r c] by (simp add: cell_at_def split: option.splits)
    also have "\<dots> \<longleftrightarrow>
        c \<in> col_index ` {cell \<in> set cells. BlockType cell = ''CELL'' \<and> row_index cell = r}"
      by (simp only: find_at_pos_None simp_thms)
    finally show ?thesis .
  qed
  then show ?thesis by blast
qed

lemma cells_loop_grid:
  assumes run: "cells_loop blocks cells [] = Inr rows"
  shows "materialize rows = grid_of_cells blocks cells"
proof -
  have ok: "rows_ok rows"
    using cells_loop_rows_ok [OF run] by (simp add: rows_ok_def)
  have keys: "fst ` set rows = row_index ` {cell \<in> set cells. BlockType cell = ''CELL''}"
    using cells_loop_keys [OF run] by simp
  have outer: "sort (map fst rows) =
      sorted_list_of_set (set (map row_index (filter (\<lambda>cell. BlockType cell = ''CELL'') cells)))"
    using ok keys by (simp add: sort_distinct_keys rows_ok_def)
  have inner: "(let row = dict_get rows r []
                in map (\<lambda>col. dict_get row col '''') (sort (map fst row))) =
      map (\<lambda>c. text_at blocks cells r c)
        (sorted_list_of_set (set (map col_index
           (filter (\<lambda>cell. BlockType cell = ''CELL'' \<and> row_index cell = r) cells))))"
    if "r \<in> set (sort (map fst rows))" for r
  proof -
    from that have "map_of rows r \<noteq> None" by (simp add: map_of_eq_None_iff)
    then obtain row where row: "map_of rows r = Some row" by blast
    then have "(r, row) \<in> set rows" by (rule map_of_SomeD)
    from rows_okD [OF ok this] have d: "distinct (map fst row)" by simp
    have cols: "sort (map fst row) =
        sorted_list_of_set (set (map col_index
          (filter (\<lambda>cell. BlockType cell = ''CELL'' \<and> row_index cell = r) cells)))"
      using d cells_loop_row_keys [OF run row] by (simp add: sort_distinct_keys)
    have entry: "dict_get row c '''' = text_at blocks cells r c" if "c \<in> set (sort (map fst row))" for c
    proof -
      from that have "map_of row c \<noteq> None" by (simp add: map_of_eq_None_iff)
      then obtain t where t: "map_of row c = Some t" by blast
      with row have "cell_at rows r c = Some t" by (simp add: cell_at_def)
      with cells_loop_cell_at [OF run, of r c] have "text_at blocks cells r c = t"
        by (simp add: text_at_def cell_at_def split: option.splits)
      with t show ?thesis by (simp add: dict_get_def)
    qed
    have "map (\<lambda>col. dict_get row col '''') (sort (map fst row)) =
          map (\<lambda>c. text_at blocks cells r c) (sort (map fst row))"
      by (rule map_cong [OF refl]) (rule entry)
    with row cols show ?thesis by (simp add: dict_get_def)
  qed
  have "materialize rows =
      map (\<lambda>r. map (\<lambda>c. text_at blocks cells r c)
                (sorted_list_of_set (set (map col_index
                   (filter (\<lambda>cell. BlockType cell = ''CELL'' \<and> row_index cell = r) cells)))))
          (sort (map fst rows))"
    unfolding materialize_def by (rule map_cong [OF refl]) (rule inner)
  with outer show ?thesis by (simp add: grid_of_cells_def)
qed

lemma table_of_grid:
  assumes "table_of blocks tb = Inr grid"
  shows "grid = concat (map (\<lambda>rel. grid_of_cells blocks (cells_of blocks rel)) (child_rels tb))"
proof -
  from table_of_split [OF assms] obtain rowss where
    l: "list_all2 (\<lambda>rel rows. cells_loop blocks (cells_of blocks rel) [] = Inr rows)
          (child_rels tb) rowss"
    and g: "grid = concat (map materialize rowss)" by blast
  from l have "map materialize rowss =
      map (\<lambda>rel. grid_of_cells blocks (cells_of blocks rel)) (child_rels tb)"
    by (induction rule: list_all2_induct) (simp_all add: cells_loop_grid)
  with g show ?thesis by simp
qed

lemma tables_loop_char:
  "tables_loop blocks tbs acc = Inr tables \<Longrightarrow>
   tables = acc @ filter (\<lambda>g. g \<noteq> []) (map (\<lambda>t. projr (table_of blocks t)) tbs) \<and>
   list_all (\<lambda>t. \<not> isl (table_of blocks t)) tbs"
proof (induction tbs arbitrary: acc)
  case Nil
  then show ?case by simp
next
  case (Cons t tbs)
  from Cons.prems obtain g where g: "table_of blocks t = Inr g"
    by (auto split: sum.splits)
  show ?case
  proof (cases "g = []")
    case True
    with Cons.prems g have "tables_loop blocks tbs acc = Inr tables" by simp
    from Cons.IH [OF this] g True show ?thesis by simp
  next
    case False
    with Cons.prems g have "tables_loop blocks tbs (acc @ [g]) = Inr tables" by simp
    from Cons.IH [OF this] g False show ?thesis by simp
  qed
qed

lemma tables_loop_append:
  "tables_loop blocks (xs @ ys) acc =
     (case tables_loop blocks xs acc of Inl e \<Rightarrow> Inl e | Inr acc' \<Rightarrow> tables_loop blocks ys acc')"
  by (induction xs arbitrary: acc) (auto split: sum.splits)

lemma table_rels_no_cells:
  "\<forall>rel \<in> set (filter (\<lambda>r. Type r = ''CHILD'') rels).
      \<forall>b \<in> set (cells_of blocks rel). BlockType b \<noteq> ''CELL'' \<Longrightarrow>
   table_rels blocks rels table = Inr table"
proof (induction rels)
  case Nil
  then show ?case by simp
next
  case (Cons rel rels)
  then have rest: "table_rels blocks rels table = Inr table" by (auto split: if_splits)
  show ?case
  proof (cases "Type rel = ''CHILD''")
    case True
    with Cons.prems have "\<forall>b \<in> set (cells_of blocks rel). BlockType b \<noteq> ''CELL''" by simp
    then have "cells_loop blocks (cells_of blocks rel) [] = Inr []"
      by (rule cells_loop_no_cells)
    with True rest show ?thesis by (simp add: cells_of_def materialize_Nil)
  next
    case False
    with rest show ?thesis by simp
  qed
qed

lemma table_of_no_cells:
  assumes "\<forall>rel \<in> set (child_rels tb). \<forall>b \<in> set (cells_of blocks rel). BlockType b \<noteq> ''CELL''"
  shows "table_of blocks tb = Inr []"
proof (cases "Relationships tb")
  case None
  then show ?thesis by (simp add: table_of_def)
next
  case (Some rels)
  with assms show ?thesis
    using table_rels_no_cells [of rels blocks "[]"] by (simp add: table_of_def child_rels_def)
qed

lemma table_of_rows_nonempty:
  assumes "table_of blocks tb = Inr grid" and "row \<in> set grid"
  shows "row \<noteq> []"
proof -
  from table_of_split [OF assms(1)] obtain rowss where
    l: "list_all2 (\<lambda>rel rows. cells_loop blocks (cells_of blocks rel) [] = Inr rows)
          (child_rels tb) rowss"
    and g: "grid = concat (map materialize rowss)" by blast
  from g assms(2) obtain rows where rows: "rows \<in> set rowss" and row: "row \<in> set (materialize rows)"
    by auto
  from rows l obtain rel where "cells_loop blocks (cells_of blocks rel) [] = Inr rows"
    by (auto simp: list_all2_conv_all_nth in_set_conv_nth)
  then have "rows_ok rows" using cells_loop_rows_ok by (simp add: rows_ok_def)
  with row show ?thesis by (rule materialize_rows_nonempty [rotated -1])
qed

section \<open>Claims about tables\<close>

lemmas example_defs = ex_grid_def ex_grid_table_def bare_def child_def two_cells_def
  cx_split_table_def cx_listed_table_def ex_no_cells_table_def

lemmas table_run_defs = extract_tables_def table_of_def cell_text_of_def materialize_def
  dict_get_def strip_def isspace_def

lemmas table_spec_defs = spec_table_grid_def spec_cells_def grid_of_cells_def text_at_def
  at_pos_def row_index_def col_index_def child_ids_def last_with_id_def map_filter_simps
  sorted_list_of_set_sort_remdups

lemma ex_grid_table_of: "table_of (Blocks ex_grid) ex_grid_table = Inr [[''A'', ''B''], [''C'']]"
  by (simp add: example_defs table_run_defs)

lemma ex_grid_tables: "extract_tables ex_grid = Inr [[[''A'', ''B''], [''C'']]]"
  by (simp add: example_defs table_run_defs)

text \<open>
  Claim C3, as amended. The grid of a table is, for each \<^verbatim>\<open>CHILD\<close> relationship of the
  table in listed order, the rows of the cells that relationship selects: the row indices
  in ascending order, and within each row exactly the column indices present in that row,
  in ascending order; no row is padded. A table with a single \<^verbatim>\<open>CHILD\<close> relationship
  has its whole grid in ascending row order, as in the example of the specification, whose
  grid is \<open>[[A, B], [C]]\<close>.
\<close>

theorem C3_grid_order:
  assumes "table_of blocks table_block = Inr grid"
  shows "grid = concat (map (\<lambda>rel. grid_of_cells blocks (cells_of blocks rel))
                          (child_rels table_block)) \<and>
         (\<forall>rel. child_rels table_block = [rel] \<longrightarrow>
                grid = grid_of_cells blocks (cells_of blocks rel))"
  using table_of_grid [OF assms] by simp

theorem C3_grid_order_witness:
  "[[''A'', ''B''], [''C'']] =
     grid_of_cells (Blocks ex_grid)
       (cells_of (Blocks ex_grid) \<lparr>Type = ''CHILD'', Ids = [''c21'', ''gone'', ''c12'', ''c11'', ''wa'']\<rparr>) \<and>
   extract_tables ex_grid = Inr [[[''A'', ''B''], [''C'']]]"
proof -
  have rels: "child_rels ex_grid_table =
      [\<lparr>Type = ''CHILD'', Ids = [''c21'', ''gone'', ''c12'', ''c11'', ''wa'']\<rparr>]"
    by (simp add: child_rels_def example_defs)
  from C3_grid_order [OF ex_grid_table_of] rels ex_grid_tables show ?thesis by simp
qed

text \<open>A table with two \<^verbatim>\<open>CHILD\<close> relationships, the first to a cell of row 2 and the
  second to a cell of row 1, has the row of index 2 before the row of index 1; the grid of
  the table's cells in ascending row order is the other way round.\<close>

theorem C3_counterexample:
  "table_of (cx_split_table # two_cells 1 1 2 1) cx_split_table = Inr [[''B''], [''A'']] \<and>
   spec_table_grid (cx_split_table # two_cells 1 1 2 1) cx_split_table = [[''A''], [''B'']]"
  by (simp add: example_defs table_run_defs table_spec_defs)

text \<open>
  Claim C4, as amended. For each \<^verbatim>\<open>CHILD\<close> relationship of a table separately, the
  blocks of the collection whose id is among the relationship's target ids are grouped,
  those of type \<^verbatim>\<open>CELL\<close>, into one mapping from row index to column index to text;
  when two of them share a row and column index, the one that comes later in the
  collection overwrites the earlier one. The grid of the table is the rows of these
  mappings, one relationship after the other.
\<close>

theorem C4_cells_grouped:
  assumes "table_of blocks table_block = Inr grid"
  shows "\<exists>rowss.
           list_all2
             (\<lambda>rel rows.
                cells_loop blocks (cells_of blocks rel) [] = Inr rows \<and>
                (\<forall>r c. cell_at rows r c =
                   map_option (\<lambda>cell. projr (cell_text_of blocks cell))
                     (find (at_pos r c) (rev (cells_of blocks rel)))))
             (child_rels table_block) rowss \<and>
           grid = concat (map materialize rowss)"
proof -
  from table_of_split [OF assms] obtain rowss where
    l: "list_all2 (\<lambda>rel rows. cells_loop blocks (cells_of blocks rel) [] = Inr rows)
          (child_rels table_block) rowss"
    and g: "grid = concat (map materialize rowss)" by blast
  have "cell_at rows r c =
          map_option (\<lambda>cell. projr (cell_text_of blocks cell)) (find (at_pos r c) (rev cells))"
    if "cells_loop blocks cells [] = Inr rows" for cells rows r c
    using cells_loop_cell_at [OF that, of r c] by (simp add: cell_at_def split: option.splits)
  with l have "list_all2
      (\<lambda>rel rows.
         cells_loop blocks (cells_of blocks rel) [] = Inr rows \<and>
         (\<forall>r c. cell_at rows r c =
            map_option (\<lambda>cell. projr (cell_text_of blocks cell))
              (find (at_pos r c) (rev (cells_of blocks rel)))))
      (child_rels table_block) rowss"
    by (simp add: list_all2_conv_all_nth)
  with g show ?thesis by blast
qed

theorem C4_cells_grouped_witness:
  "\<exists>rowss.
     list_all2
       (\<lambda>rel rows.
          cells_loop (Blocks ex_grid) (cells_of (Blocks ex_grid) rel) [] = Inr rows \<and>
          (\<forall>r c. cell_at rows r c =
             map_option (\<lambda>cell. projr (cell_text_of (Blocks ex_grid) cell))
               (find (at_pos r c) (rev (cells_of (Blocks ex_grid) rel)))))
       (child_rels ex_grid_table) rowss \<and>
     [[''A'', ''B''], [''C'']] = concat (map materialize rowss)"
  using C4_cells_grouped [OF ex_grid_table_of] .

text \<open>Two relationships to cells of the same row give two rows where the claim has one;
  and of two cells at the same position in one relationship, the later one of the
  collection wins, not the later one of the target ids.\<close>

theorem C4_counterexample:
  "table_of (cx_split_table # two_cells 1 1 1 2) cx_split_table = Inr [[''B''], [''A'']] \<and>
   spec_table_grid (cx_split_table # two_cells 1 1 1 2) cx_split_table = [[''A'', ''B'']] \<and>
   table_of (cx_listed_table # two_cells 1 1 1 1) cx_listed_table = Inr [[''B'']] \<and>
   spec_table_grid (cx_listed_table # two_cells 1 1 1 1) cx_listed_table = [[''A'']]"
  by (simp add: example_defs table_run_defs table_spec_defs)

text \<open>
  Claim C9. A table block none of whose \<^verbatim>\<open>CHILD\<close> relationships selects a \<^verbatim>\<open>CELL\<close>
  block has the empty grid, and the loop over the table blocks gives the same result with
  and without it: it contributes no entry to the tables.
\<close>

theorem C9_empty_table_dropped:
  assumes "\<forall>rel \<in> set (child_rels table_block).
             \<forall>b \<in> set (cells_of blocks rel). BlockType b \<noteq> ''CELL''"
  shows "table_of blocks table_block = Inr [] \<and>
         tables_loop blocks (before @ table_block # after) tables =
           tables_loop blocks (before @ after) tables"
proof -
  have e: "table_of blocks table_block = Inr []"
    using assms by (rule table_of_no_cells)
  then have st: "tables_loop blocks (table_block # after) acc = tables_loop blocks after acc" for acc
    by simp
  have "tables_loop blocks (before @ table_block # after) tables =
      tables_loop blocks (before @ after) tables"
    by (simp add: tables_loop_append st del: tables_loop.simps split: sum.splits)
  with e show ?thesis by simp
qed

theorem C9_empty_table_dropped_witness:
  "table_of (ex_no_cells_table # Blocks ex_grid) ex_no_cells_table = Inr [] \<and>
   tables_loop (ex_no_cells_table # Blocks ex_grid) [ex_no_cells_table, ex_grid_table] [] =
     Inr [[[''A'', ''B''], [''C'']]]"
proof -
  have h: "\<forall>rel \<in> set (child_rels ex_no_cells_table).
      \<forall>b \<in> set (cells_of (ex_no_cells_table # Blocks ex_grid) rel). BlockType b \<noteq> ''CELL''"
    by (simp add: child_rels_def cells_of_def example_defs)
  have t: "tables_loop (ex_no_cells_table # Blocks ex_grid) [ex_grid_table] [] =
      Inr [[[''A'', ''B''], [''C'']]]"
    by (simp add: example_defs table_run_defs)
  from C9_empty_table_dropped [OF h, of "[]" "[ex_grid_table]" "[]"] t show ?thesis by simp
qed

text \<open>
  Claim C10. Every grid that \<^verbatim>\<open>extract_tables\<close> returns has at least one row, and every
  row of it has at least one cell text. The row indices of a \<^verbatim>\<open>rows\<close> dictionary are
  exactly the row indices that the \<^verbatim>\<open>CELL\<close> blocks among the selected blocks carry,
  and each of them gives one non-empty row.
\<close>

theorem C10_no_empty_rows:
  "(extract_tables response = Inr tables \<longrightarrow>
      list_all (\<lambda>grid. grid \<noteq> [] \<and> list_all (\<lambda>row. row \<noteq> []) grid) tables) \<and>
   (cells_loop blocks cells [] = Inr rows \<longrightarrow>
      fst ` set rows = row_index ` {cell \<in> set cells. BlockType cell = ''CELL''} \<and>
      length (materialize rows) = length rows \<and>
      list_all (\<lambda>row. row \<noteq> []) (materialize rows))"
proof (intro conjI impI)
  assume run: "extract_tables response = Inr tables"
  define tbs where "tbs = filter (\<lambda>block. BlockType block = ''TABLE'') (Blocks response)"
  from run have "tables_loop (Blocks response) tbs [] = Inr tables"
    by (simp add: extract_tables_def tbs_def)
  from tables_loop_char [OF this]
  have tables: "tables = filter (\<lambda>g. g \<noteq> []) (map (\<lambda>t. projr (table_of (Blocks response) t)) tbs)"
    and ok: "list_all (\<lambda>t. \<not> isl (table_of (Blocks response) t)) tbs" by simp_all
  show "list_all (\<lambda>grid. grid \<noteq> [] \<and> list_all (\<lambda>row. row \<noteq> []) grid) tables"
    unfolding list_all_iff
  proof (intro ballI conjI)
    fix grid assume "grid \<in> set tables"
    with tables obtain t where t: "t \<in> set tbs" and g: "grid = projr (table_of (Blocks response) t)"
      and ne: "grid \<noteq> []" by auto
    from ok t have "\<not> isl (table_of (Blocks response) t)" by (simp add: list_all_iff)
    with g have tg: "table_of (Blocks response) t = Inr grid"
      by (cases "table_of (Blocks response) t") simp_all
    show "grid \<noteq> []" by (rule ne)
    fix row assume "row \<in> set grid"
    with tg show "row \<noteq> []" by (rule table_of_rows_nonempty)
  qed
next
  assume run: "cells_loop blocks cells [] = Inr rows"
  show "fst ` set rows = row_index ` {cell \<in> set cells. BlockType cell = ''CELL''}"
    using cells_loop_keys [OF run] by simp
  show "length (materialize rows) = length rows"
    by (simp add: materialize_def)
  have "rows_ok rows" using cells_loop_rows_ok [OF run] by (simp add: rows_ok_def)
  then show "list_all (\<lambda>row. row \<noteq> []) (materialize rows)"
    unfolding list_all_iff using materialize_rows_nonempty by blast
qed

theorem C10_no_empty_rows_witness:
  "list_all (\<lambda>grid. grid \<noteq> [] \<and> list_all (\<lambda>row. row \<noteq> []) grid) [[[''A'', ''B''], [''C'']]] \<and>
   length (materialize [(1, [(2, ''B''), (1, ''A'')]), (2, [(1, ''C'')])]) = 2"
proof -
  have c: "cells_loop (Blocks ex_grid) (tl (Blocks ex_grid)) [] =
      Inr [(1, [(2, ''B''), (1, ''A'')]), (2, [(1, ''C'')])]"
    by (simp add: example_defs table_run_defs)
  from C10_no_empty_rows [of ex_grid "[[[''A'', ''B''], [''C'']]]" "Blocks ex_grid"
      "tl (Blocks ex_grid)" "[(1, [(2, ''B''), (1, ''A'')]), (2, [(1, ''C'')])]"]
    ex_grid_tables c
  show ?thesis by simp
qed

section \<open>Block index and forms\<close>

lemma map_of_fold_update:
  "map_of (fold (\<lambda>x. AList.update (f x) (g x)) xs al) i =
     (case find (\<lambda>x. f x = i) (rev xs) of None \<Rightarrow> map_of al i | Some x \<Rightarrow> Some (g x))"
proof (induction xs arbitrary: al)
  case Nil
  then show ?case by simp
next
  case (Cons x xs)
  show ?case
    by (simp add: Cons.IH find_snoc update_conv' split: option.splits)
qed

lemma map_of_index_by_id:
  "map_of (index_by_id bs []) i = last_with_id bs i"
  unfolding index_by_id_def last_with_id_def
  by (simp add: map_of_fold_update [where g = "\<lambda>b. b"] split: option.splits)

lemma index_by_id_simps:
  "index_by_id [] d = d"
  "index_by_id (b # bs) d = index_by_id bs (AList.update (Id' b) b d)"
  by (simp_all add: index_by_id_def)

lemma index_blocks_ok:
  "\<forall>b \<in> set blocks. BlockType b = ''KEY_VALUE_SET'' \<longrightarrow> EntityTypes b \<noteq> None \<Longrightarrow>
   index_blocks blocks (km, vm, bm) =
     Inr (index_by_id (filter is_key_block blocks) km,
          index_by_id (filter is_value_block blocks) vm,
          index_by_id blocks bm)"
proof (induction blocks arbitrary: km vm bm)
  case Nil
  then show ?case by (simp add: index_by_id_simps)
next
  case (Cons b blocks)
  then have IH: "index_blocks blocks (km', vm', bm') =
     Inr (index_by_id (filter is_key_block blocks) km',
          index_by_id (filter is_value_block blocks) vm',
          index_by_id blocks bm')" for km' vm' bm'
    by simp
  show ?case
  proof (cases "BlockType b = ''KEY_VALUE_SET''")
    case True
    with Cons.prems obtain roles where roles: "EntityTypes b = Some roles" by auto
    from True roles have k: "is_key_block b \<longleftrightarrow> ''KEY'' \<in> set roles"
      and v: "is_value_block b \<longleftrightarrow> ''KEY'' \<notin> set roles"
      by (simp_all add: is_key_block_def is_value_block_def)
    from True roles show ?thesis
      by (simp add: IH k v index_by_id_simps Let_def)
  next
    case False
    then have k: "\<not> is_key_block b" and v: "\<not> is_value_block b"
      by (simp_all add: is_key_block_def is_value_block_def)
    from False show ?thesis
      by (simp add: IH k v index_by_id_simps Let_def)
  qed
qed

lemma index_blocks_fail:
  "\<exists>b \<in> set blocks. BlockType b = ''KEY_VALUE_SET'' \<and> EntityTypes b = None \<Longrightarrow>
   index_blocks blocks (km, vm, bm) = Inl (KeyError ''EntityTypes'')"
proof (induction blocks arbitrary: km vm bm)
  case Nil
  then show ?case by simp
next
  case (Cons b blocks)
  show ?case
  proof (cases "BlockType b = ''KEY_VALUE_SET'' \<and> EntityTypes b = None")
    case True
    then show ?thesis by simp
  next
    case False
    with Cons.prems have "\<exists>b \<in> set blocks. BlockType b = ''KEY_VALUE_SET'' \<and> EntityTypes b = None"
      by auto
    then have "index_blocks blocks (km', vm', bm') = Inl (KeyError ''EntityTypes'')" for km' vm' bm'
      by (rule Cons.IH)
    then show ?thesis by (simp add: Let_def split: option.splits)
  qed
qed

lemma forms_loop_Cons:
  "forms_loop ((i, kb) # rest) vm bm forms =
     (case form_pair vm bm kb of
        Inl e \<Rightarrow> Inl e
      | Inr p \<Rightarrow>
          if emitted p then forms_loop rest vm bm (AList.update (fst p) (snd p) forms)
          else forms_loop rest vm bm forms)"
  by (simp add: form_pair_def emitted_def split: sum.splits option.splits)

lemma forms_loop_char:
  "forms_loop km vm bm forms = Inr out \<Longrightarrow>
   list_all (\<lambda>(i, kb). \<not> isl (form_pair vm bm kb)) km \<and>
   out = fold (\<lambda>p. AList.update (fst p) (snd p)) (form_pairs km vm bm) forms"
proof (induction km arbitrary: forms)
  case Nil
  then show ?case by (simp add: form_pairs_def)
next
  case (Cons entry km)
  obtain i kb where entry: "entry = (i, kb)" by (cases entry)
  from Cons.prems entry obtain p where p: "form_pair vm bm kb = Inr p"
    by (auto simp: forms_loop_Cons simp del: forms_loop.simps split: sum.splits)
  show ?case
  proof (cases "emitted p")
    case True
    with Cons.prems entry p
    have "forms_loop km vm bm (AList.update (fst p) (snd p) forms) = Inr out"
      by (simp add: forms_loop_Cons del: forms_loop.simps)
    from Cons.IH [OF this] entry p True show ?thesis by (simp add: form_pairs_def)
  next
    case False
    with Cons.prems entry p have "forms_loop km vm bm forms = Inr out"
      by (simp add: forms_loop_Cons del: forms_loop.simps)
    from Cons.IH [OF this] entry p False show ?thesis by (simp add: form_pairs_def)
  qed
qed

lemma forms_lookup:
  assumes "forms_loop km vm bm [] = Inr out"
  shows "map_of out k = map_option snd (find (\<lambda>p. fst p = k) (rev (form_pairs km vm bm)))"
proof -
  from forms_loop_char [OF assms]
  have "out = fold (\<lambda>p. AList.update (fst p) (snd p)) (form_pairs km vm bm) []" by simp
  then show ?thesis
    by (simp add: map_of_fold_update split: option.splits)
qed

lemma index_blocks_Inr:
  assumes "index_blocks blocks ([], [], []) = Inr (km, vm, bm)"
  shows "km = index_by_id (filter is_key_block blocks) [] \<and>
         vm = index_by_id (filter is_value_block blocks) [] \<and>
         bm = index_by_id blocks []"
proof (cases "\<exists>b \<in> set blocks. BlockType b = ''KEY_VALUE_SET'' \<and> EntityTypes b = None")
  case True
  from index_blocks_fail [OF True, of "[]" "[]" "[]"] assms show ?thesis by simp
next
  case False
  then have "\<forall>b \<in> set blocks. BlockType b = ''KEY_VALUE_SET'' \<longrightarrow> EntityTypes b \<noteq> None"
    by auto
  from index_blocks_ok [OF this, of "[]" "[]" "[]"] assms show ?thesis by simp
qed

lemma in_form_pairs:
  assumes "p \<in> set (form_pairs km vm bm)"
    and "list_all (\<lambda>(i, kb). \<not> isl (form_pair vm bm kb)) km"
  shows "emitted p \<and> (\<exists>(j, kb) \<in> set km. form_pair vm bm kb = Inr p)"
proof -
  from assms(1) obtain j kb where e: "(j, kb) \<in> set km"
    and p: "p = projr (form_pair vm bm kb)" and em: "emitted p"
    by (auto simp: form_pairs_def)
  from assms(2) e have "\<not> isl (form_pair vm bm kb)" by (auto simp: list_all_iff)
  with p have "form_pair vm bm kb = Inr p" by (cases "form_pair vm bm kb") simp_all
  with e em show ?thesis by blast
qed

lemma form_pairs_member:
  assumes "(i, kb) \<in> set km" and "form_pair vm bm kb = Inr p" and "emitted p"
  shows "p \<in> set (form_pairs km vm bm)"
proof -
  from assms(1,2) have "p \<in> set (map (\<lambda>(i, kb). projr (form_pair vm bm kb)) km)"
    by force
  with assms(3) show ?thesis by (simp add: form_pairs_def)
qed

lemma find_key_Some:
  "find (\<lambda>p. fst p = k) xs = Some p \<Longrightarrow> fst p = k \<and> p \<in> set xs"
  by (auto simp: find_Some_iff)

text \<open>
  Claim C2, as amended. When \<^verbatim>\<open>extract_forms\<close> returns, its mapping sends a key text to
  the value text of the last entry of the key index, in its order, whose key text this is and
  whose two texts are non-empty. So every key block of the key index with a paired value
  block and non-empty texts on both sides has an entry under its key text, and the entry is
  its own pair unless another key block with the same key text and a different non-empty
  value text overwrites it. Every entry of the mapping comes from a key block with non-empty
  key text and value text, so a key block with an empty side contributes none. The key
  index holds, for each id, the last \<^verbatim>\<open>KEY\<close>-role \<^verbatim>\<open>KEY_VALUE_SET\<close> block with that id.
\<close>

theorem C2_forms:
  assumes idx: "index_blocks (Blocks response) ([], [], []) = Inr (key_map, value_map, block_map)"
    and run: "extract_forms response = Inr forms"
  shows "(\<forall>k. map_of forms k =
            map_option snd (find (\<lambda>p. fst p = k) (rev (form_pairs key_map value_map block_map)))) \<and>
         (\<forall>(i, kb) \<in> set key_map. \<forall>kt vt.
            form_pair value_map block_map kb = Inr (kt, vt) \<and> kt \<noteq> '''' \<and> vt \<noteq> '''' \<longrightarrow>
              (\<exists>v. map_of forms kt = Some v \<and> v \<noteq> '''') \<and>
              ((\<forall>(j, kb') \<in> set key_map. \<forall>vt'.
                  form_pair value_map block_map kb' = Inr (kt, vt') \<and> vt' \<noteq> '''' \<longrightarrow> vt' = vt) \<longrightarrow>
               map_of forms kt = Some vt)) \<and>
         (\<forall>kt vt. map_of forms kt = Some vt \<longrightarrow>
            kt \<noteq> '''' \<and> vt \<noteq> '''' \<and>
            (\<exists>(i, kb) \<in> set key_map. form_pair value_map block_map kb = Inr (kt, vt))) \<and>
         (\<forall>kb \<in> set (Blocks response).
            is_key_block kb \<and>
            last_with_id (filter is_key_block (Blocks response)) (Id' kb) = Some kb \<longrightarrow>
              (Id' kb, kb) \<in> set key_map)"
proof -
  let ?ps = "form_pairs key_map value_map block_map"
  from idx run have loop: "forms_loop key_map value_map block_map [] = Inr forms"
    by (simp add: extract_forms_def)
  have look: "map_of forms k = map_option snd (find (\<lambda>p. fst p = k) (rev ?ps))" for k
    by (rule forms_lookup [OF loop])
  from forms_loop_char [OF loop]
  have ok: "list_all (\<lambda>(i, kb). \<not> isl (form_pair value_map block_map kb)) key_map" by simp
  have src: "emitted p \<and> (\<exists>(j, kb) \<in> set key_map. form_pair value_map block_map kb = Inr p)"
    if "find (\<lambda>p. fst p = k) (rev ?ps) = Some p" for k p
  proof -
    from find_key_Some [OF that] have "p \<in> set ?ps" by simp
    then show ?thesis using ok by (rule in_form_pairs)
  qed
  have complete: "(\<exists>v. map_of forms kt = Some v \<and> v \<noteq> '''') \<and>
      ((\<forall>(j, kb') \<in> set key_map. \<forall>vt'.
          form_pair value_map block_map kb' = Inr (kt, vt') \<and> vt' \<noteq> '''' \<longrightarrow> vt' = vt) \<longrightarrow>
       map_of forms kt = Some vt)"
    if e: "(i, kb) \<in> set key_map" and fp: "form_pair value_map block_map kb = Inr (kt, vt)"
      and ne: "kt \<noteq> ''''" "vt \<noteq> ''''" for i kb kt vt
  proof -
    from ne have "emitted (kt, vt)" by (simp add: emitted_def)
    with e fp have "(kt, vt) \<in> set (rev ?ps)" by (simp add: form_pairs_member)
    then have "find (\<lambda>p. fst p = kt) (rev ?ps) \<noteq> None"
      by (auto simp: find_None_iff)
    then obtain p where p: "find (\<lambda>p. fst p = kt) (rev ?ps) = Some p" by blast
    from find_key_Some [OF p] have k: "fst p = kt" by simp
    from src [OF p] have em: "emitted p"
      and s: "\<exists>(j, kb') \<in> set key_map. form_pair value_map block_map kb' = Inr p" by simp_all
    from p have m: "map_of forms kt = Some (snd p)" by (simp add: look)
    from em have v: "snd p \<noteq> ''''" by (simp add: emitted_def)
    have "snd p = vt"
      if u: "\<forall>(j, kb') \<in> set key_map. \<forall>vt'.
          form_pair value_map block_map kb' = Inr (kt, vt') \<and> vt' \<noteq> '''' \<longrightarrow> vt' = vt"
    proof -
      from s obtain j kb' where "(j, kb') \<in> set key_map"
        and "form_pair value_map block_map kb' = Inr p" by blast
      with k have "(j, kb') \<in> set key_map"
        and "form_pair value_map block_map kb' = Inr (kt, snd p)"
        by (simp_all add: prod_eq_iff)
      with u v show ?thesis by blast
    qed
    with m v show ?thesis by simp
  qed
  have sound: "kt \<noteq> '''' \<and> vt \<noteq> '''' \<and>
      (\<exists>(i, kb) \<in> set key_map. form_pair value_map block_map kb = Inr (kt, vt))"
    if "map_of forms kt = Some vt" for kt vt
  proof -
    from that obtain p where p: "find (\<lambda>p. fst p = kt) (rev ?ps) = Some p" and v: "snd p = vt"
      by (auto simp: look)
    from find_key_Some [OF p] have "fst p = kt" by simp
    with v have "p = (kt, vt)" by (simp add: prod_eq_iff)
    with src [OF p] show ?thesis by (simp add: emitted_def)
  qed
  have keys: "(Id' kb, kb) \<in> set key_map"
    if "last_with_id (filter is_key_block (Blocks response)) (Id' kb) = Some kb" for kb
  proof -
    from index_blocks_Inr [OF idx]
    have "key_map = index_by_id (filter is_key_block (Blocks response)) []" by simp
    with that have "map_of key_map (Id' kb) = Some kb" by (simp add: map_of_index_by_id)
    then show ?thesis by (rule map_of_SomeD)
  qed
  from look complete sound keys show ?thesis by blast
qed

lemmas form_example_defs = ex_invoice_def ex_key_def ex_value_def cx_same_key_def cx_name_key_def
  cx_name_value_def cx_no_text_def cx_no_roles_def cx_dup_def cx_dup_cell_def cx_dup_key_def
  cx_dup_value_def bare_def child_def

lemmas form_run_defs = extract_forms_def get_text_def find_value_block_def strip_def isspace_def
  Let_def

theorem C2_forms_witness:
  "extract_forms ex_invoice = Inr [(''Total'', ''42'')] \<and>
   (\<exists>v. map_of [(''Total'', ''42'')] ''Total'' = Some v \<and> v \<noteq> '''')"
proof -
  define bm where "bm = map (\<lambda>b. (Id' b, b)) (Blocks ex_invoice)"
  have idx: "index_blocks (Blocks ex_invoice) ([], [], []) =
      Inr ([(''k1'', ex_key)], [(''id2'', ex_value)], bm)"
    by (simp add: bm_def form_example_defs Let_def)
  have run: "extract_forms ex_invoice = Inr [(''Total'', ''42'')]"
    by (simp add: form_example_defs form_run_defs)
  have fp: "form_pair [(''id2'', ex_value)] bm ex_key = Inr (''Total'', ''42'')"
    by (simp add: bm_def form_pair_def form_example_defs form_run_defs)
  from C2_forms [OF idx run]
  have "\<forall>(i, kb) \<in> set [(''k1'', ex_key)]. \<forall>kt vt.
      form_pair [(''id2'', ex_value)] bm kb = Inr (kt, vt) \<and> kt \<noteq> '''' \<and> vt \<noteq> '''' \<longrightarrow>
      (\<exists>v. map_of [(''Total'', ''42'')] kt = Some v \<and> v \<noteq> '''')"
    by blast
  with fp have "\<exists>v. map_of [(''Total'', ''42'')] ''Total'' = Some v \<and> v \<noteq> ''''"
    by auto
  with run show ?thesis by blast
qed

text \<open>Two key blocks with the key text \<open>Name\<close>: each has a paired value block and
  non-empty texts, and the mapping holds the pair of the second one only.\<close>

theorem C2_counterexample:
  "index_blocks (Blocks cx_same_key) ([], [], []) =
     Inr ([(''k1'', cx_name_key ''k1'' ''v1''), (''k2'', cx_name_key ''k2'' ''v2'')],
          [(''v1'', cx_name_value ''v1'' ''wa''), (''v2'', cx_name_value ''v2'' ''wb'')],
          map (\<lambda>b. (Id' b, b)) (Blocks cx_same_key)) \<and>
   form_pair [(''v1'', cx_name_value ''v1'' ''wa''), (''v2'', cx_name_value ''v2'' ''wb'')]
     (map (\<lambda>b. (Id' b, b)) (Blocks cx_same_key)) (cx_name_key ''k1'' ''v1'') =
     Inr (''Name'', ''A'') \<and>
   extract_forms cx_same_key = Inr [(''Name'', ''B'')]"
  by (simp add: form_pair_def form_example_defs form_run_defs)

section \<open>Absent attributes and duplicate ids\<close>

lemma extract_text_loop_fail:
  "\<exists>b \<in> set bs. BlockType b = ''LINE'' \<and> Text b = None \<Longrightarrow>
   extract_text_loop bs acc = Inl (KeyError ''Text'')"
proof (induction bs arbitrary: acc)
  case Nil
  then show ?case by simp
next
  case (Cons b bs)
  show ?case
  proof (cases "BlockType b = ''LINE'' \<and> Text b = None")
    case True
    then show ?thesis by simp
  next
    case False
    with Cons.prems have "\<exists>b \<in> set bs. BlockType b = ''LINE'' \<and> Text b = None" by auto
    then have "extract_text_loop bs acc' = Inl (KeyError ''Text'')" for acc'
      by (rule Cons.IH)
    then show ?thesis by (simp split: option.splits)
  qed
qed

lemma index_blocks_lookup:
  assumes "\<forall>b \<in> set blocks. BlockType b = ''KEY_VALUE_SET'' \<longrightarrow> EntityTypes b \<noteq> None"
  shows "\<exists>key_map value_map block_map.
           index_blocks blocks ([], [], []) = Inr (key_map, value_map, block_map) \<and>
           (\<forall>i. map_of block_map i = last_with_id blocks i) \<and>
           (\<forall>i. map_of value_map i = last_with_id (filter is_value_block blocks) i) \<and>
           (\<forall>i. map_of key_map i = last_with_id (filter is_key_block blocks) i)"
  using index_blocks_ok [OF assms, of "[]" "[]" "[]"] by (simp add: map_of_index_by_id)

text \<open>
  Claim C6, as amended. An attribute that is present but empty is tolerated, an absent one
  is not. When every \<^verbatim>\<open>LINE\<close> block has a text, the lines are the texts of all the
  \<^verbatim>\<open>LINE\<close> blocks, an empty text giving an empty line; a \<^verbatim>\<open>LINE\<close> block without a
  text makes \<^verbatim>\<open>extract_text\<close> fail with \<^verbatim>\<open>KeyError\<close>. When every \<^verbatim>\<open>KEY_VALUE_SET\<close>
  block has entity roles, the blocks whose roles lack \<^verbatim>\<open>KEY\<close> (the empty list included)
  make up the values side; a \<^verbatim>\<open>KEY_VALUE_SET\<close> block without entity roles makes
  \<^verbatim>\<open>extract_forms\<close> fail with \<^verbatim>\<open>KeyError\<close>.
\<close>

theorem C6_absent_attributes:
  "((\<forall>b \<in> set (Blocks response). BlockType b = ''LINE'' \<longrightarrow> Text b \<noteq> None) \<longrightarrow>
      extract_text_loop (Blocks response) [] =
        Inr (map (\<lambda>b. the (Text b)) (filter (\<lambda>b. BlockType b = ''LINE'') (Blocks response)))) \<and>
   ((\<exists>b \<in> set (Blocks response). BlockType b = ''LINE'' \<and> Text b = None) \<longrightarrow>
      extract_text response = Inl (KeyError ''Text'')) \<and>
   ((\<forall>b \<in> set (Blocks response). BlockType b = ''KEY_VALUE_SET'' \<longrightarrow> EntityTypes b \<noteq> None) \<longrightarrow>
      (\<exists>key_map value_map block_map.
         index_blocks (Blocks response) ([], [], []) = Inr (key_map, value_map, block_map) \<and>
         (\<forall>i. map_of value_map i =
                last_with_id (filter is_value_block (Blocks response)) i))) \<and>
   ((\<exists>b \<in> set (Blocks response). BlockType b = ''KEY_VALUE_SET'' \<and> EntityTypes b = None) \<longrightarrow>
      extract_forms response = Inl (KeyError ''EntityTypes''))"
proof (intro conjI impI)
  assume "\<forall>b \<in> set (Blocks response). BlockType b = ''LINE'' \<longrightarrow> Text b \<noteq> None"
  from extract_text_loop_lines [OF this, of "[]"]
  show "extract_text_loop (Blocks response) [] =
      Inr (map (\<lambda>b. the (Text b)) (filter (\<lambda>b. BlockType b = ''LINE'') (Blocks response)))"
    by simp
next
  assume "\<exists>b \<in> set (Blocks response). BlockType b = ''LINE'' \<and> Text b = None"
  from extract_text_loop_fail [OF this, of "[]"]
  show "extract_text response = Inl (KeyError ''Text'')"
    by (simp add: extract_text_def)
next
  assume "\<forall>b \<in> set (Blocks response). BlockType b = ''KEY_VALUE_SET'' \<longrightarrow> EntityTypes b \<noteq> None"
  from index_blocks_lookup [OF this]
  show "\<exists>key_map value_map block_map.
      index_blocks (Blocks response) ([], [], []) = Inr (key_map, value_map, block_map) \<and>
      (\<forall>i. map_of value_map i = last_with_id (filter is_value_block (Blocks response)) i)"
    by blast
next
  assume "\<exists>b \<in> set (Blocks response). BlockType b = ''KEY_VALUE_SET'' \<and> EntityTypes b = None"
  from index_blocks_fail [OF this, of "[]" "[]" "[]"]
  show "extract_forms response = Inl (KeyError ''EntityTypes'')"
    by (simp add: extract_forms_def)
qed

theorem C6_absent_attributes_witness:
  "extract_text_loop (Blocks ex_lines) [] = Inr [''Invoice #123'', '''', ''Total 42''] \<and>
   extract_text cx_no_text = Inl (KeyError ''Text'') \<and>
   (\<exists>key_map value_map block_map.
      index_blocks (Blocks ex_invoice) ([], [], []) = Inr (key_map, value_map, block_map) \<and>
      (\<forall>i. map_of value_map i = last_with_id (filter is_value_block (Blocks ex_invoice)) i)) \<and>
   last_with_id (filter is_value_block (Blocks ex_invoice)) ''id2'' = Some ex_value \<and>
   extract_forms cx_no_roles = Inl (KeyError ''EntityTypes'')"
proof -
  have h1: "\<forall>b \<in> set (Blocks ex_lines). BlockType b = ''LINE'' \<longrightarrow> Text b \<noteq> None"
    by (simp add: ex_lines_def bare_def)
  have h2: "\<exists>b \<in> set (Blocks cx_no_text). BlockType b = ''LINE'' \<and> Text b = None"
    by (simp add: form_example_defs)
  have h3: "\<forall>b \<in> set (Blocks ex_invoice). BlockType b = ''KEY_VALUE_SET'' \<longrightarrow> EntityTypes b \<noteq> None"
    by (simp add: form_example_defs)
  have h4: "\<exists>b \<in> set (Blocks cx_no_roles). BlockType b = ''KEY_VALUE_SET'' \<and> EntityTypes b = None"
    by (simp add: form_example_defs)
  have v: "last_with_id (filter is_value_block (Blocks ex_invoice)) ''id2'' = Some ex_value"
    by (simp add: last_with_id_def is_value_block_def form_example_defs)
  have l: "map (\<lambda>b. the (Text b)) (filter (\<lambda>b. BlockType b = ''LINE'') (Blocks ex_lines)) =
      [''Invoice #123'', '''', ''Total 42'']"
    by (simp add: ex_lines_def bare_def)
  from C6_absent_attributes [of ex_lines] h1 l
  have a: "extract_text_loop (Blocks ex_lines) [] = Inr [''Invoice #123'', '''', ''Total 42'']"
    by simp
  from C6_absent_attributes [of cx_no_text] h2
  have b: "extract_text cx_no_text = Inl (KeyError ''Text'')" by blast
  from C6_absent_attributes [of ex_invoice] h3
  have c: "\<exists>key_map value_map block_map.
      index_blocks (Blocks ex_invoice) ([], [], []) = Inr (key_map, value_map, block_map) \<and>
      (\<forall>i. map_of value_map i = last_with_id (filter is_value_block (Blocks ex_invoice)) i)"
    by blast
  from C6_absent_attributes [of cx_no_roles] h4
  have d: "extract_forms cx_no_roles = Inl (KeyError ''EntityTypes'')" by blast
  from a b c d v show ?thesis by blast
qed

text \<open>A \<^verbatim>\<open>LINE\<close> block without a text aborts the text assembly, and a
  \<^verbatim>\<open>KEY_VALUE_SET\<close> block without entity roles aborts the form extraction.\<close>

theorem C6_counterexample:
  "extract_text cx_no_text = Inl (KeyError ''Text'') \<and>
   extract_forms cx_no_roles = Inl (KeyError ''EntityTypes'')"
  by (simp add: extract_text_def form_example_defs form_run_defs)

text \<open>
  Claim C8, as amended. Blocks that share an id make no extractor fail: the block index
  is built whenever the \<^verbatim>\<open>KEY_VALUE_SET\<close> blocks have entity roles. The text lookup of
  the forms resolves an id to the last block of the collection with that id; the value
  pairing resolves it to the last block with that id among the \<^verbatim>\<open>KEY_VALUE_SET\<close> blocks
  without the role \<^verbatim>\<open>KEY\<close> (and the key index likewise among those with it); the word
  lookup of the tables resolves it to the first block of the collection with that id.
\<close>

theorem C8_duplicate_ids:
  "((\<forall>b \<in> set blocks. BlockType b = ''KEY_VALUE_SET'' \<longrightarrow> EntityTypes b \<noteq> None) \<longrightarrow>
      (\<exists>key_map value_map block_map.
         index_blocks blocks ([], [], []) = Inr (key_map, value_map, block_map) \<and>
         (\<forall>i. map_of block_map i = last_with_id blocks i) \<and>
         (\<forall>i. map_of value_map i = last_with_id (filter is_value_block blocks) i) \<and>
         (\<forall>i. map_of key_map i = last_with_id (filter is_key_block blocks) i))) \<and>
   ((\<forall>w \<in> set (words_of (first_with_id blocks) (child_ids cell)). Text w \<noteq> None) \<longrightarrow>
      cell_text_of blocks cell =
        Inr (strip (join '' ''
          (map (\<lambda>w. the (Text w)) (words_of (first_with_id blocks) (child_ids cell))))))"
  using index_blocks_lookup cell_text_of_words by blast

theorem C8_duplicate_ids_witness:
  "(\<exists>key_map value_map block_map.
      index_blocks cx_dup ([], [], []) = Inr (key_map, value_map, block_map) \<and>
      (\<forall>i. map_of block_map i = last_with_id cx_dup i) \<and>
      (\<forall>i. map_of value_map i = last_with_id (filter is_value_block cx_dup) i) \<and>
      (\<forall>i. map_of key_map i = last_with_id (filter is_key_block cx_dup) i)) \<and>
   cell_text_of cx_dup cx_dup_cell = Inr ''first''"
proof -
  have h1: "\<forall>b \<in> set cx_dup. BlockType b = ''KEY_VALUE_SET'' \<longrightarrow> EntityTypes b \<noteq> None"
    by (simp add: form_example_defs)
  have w: "words_of (first_with_id cx_dup) (child_ids cx_dup_cell) =
      [(bare ''w'' ''WORD'')\<lparr>Text := Some ''first''\<rparr>]"
    by (simp add: words_of_def map_filter_simps first_with_id_def child_ids_def form_example_defs)
  have s: "strip ''first'' = ''first''"
    by (simp add: strip_def isspace_def)
  from C8_duplicate_ids [of cx_dup cx_dup_cell] h1 w s show ?thesis
    by (simp add: bare_def)
qed

text \<open>Of two words with the id \<open>w\<close> the table takes the first while the text lookup of
  the forms takes the last; and the value pairing resolves the id \<open>v\<close> to the value
  block, which is not the last block with that id.\<close>

theorem C8_counterexample:
  "extract_tables \<lparr>Blocks = cx_dup\<rparr> = Inr [[[''first'']]] \<and>
   last_with_id cx_dup ''w'' = Some ((bare ''w'' ''WORD'')\<lparr>Text := Some ''last''\<rparr>) \<and>
   get_text cx_dup_value (index_by_id cx_dup []) = Inr ''last'' \<and>
   find_value_block cx_dup_key (index_by_id (filter is_value_block cx_dup) []) =
     Some cx_dup_value \<and>
   last_with_id cx_dup ''v'' = Some ((bare ''v'' ''WORD'')\<lparr>Text := Some ''other''\<rparr>)"
  by (simp add: form_example_defs form_run_defs table_run_defs last_with_id_def
      index_by_id_def is_value_block_def)

end
